theory Spec2Isabelle
  imports Main "HOL-Library.Product_Lexorder" "HOL-Library.Monad_Syntax" "HOL-Library.Multiset"
begin

section \<open>Camera-Pan Video Combiner: the pipeline of \<^verbatim>\<open>src/main.py\<close>\<close>

text \<open>
  The development embeds the file pipeline of \<^verbatim>\<open>PanoramaCombiner\<close>: filename
  parsing, chronological sorting, playlist escaping, the FFmpeg call and the job around it.
  The Tk widgets are left out; what the code reports through \<^verbatim>\<open>log_message\<close> and
  the message boxes is kept as a list of events.

  A Python \<^verbatim>\<open>str\<close> is modelled as a \<^typ>\<open>string\<close>, one \<^typ>\<open>char\<close> per code
  point, so the model covers names whose code points are below 256. In that range the
  regular-expression class \<^verbatim>\<open>\d\<close> is exactly the ten ASCII digits. The parser is
  modelled a second time on names of any code points, where \<^verbatim>\<open>\d\<close> matches the
  decimal digits of every script; on names of Latin-1 characters the two models give a path
  the same timestamp.
\<close>

subsection \<open>Characters, digits and \<^verbatim>\<open>os.path\<close>\<close>

definition isdigit :: "char \<Rightarrow> bool" where
  "isdigit c = (c \<in> set ''0123456789'')"

definition digit_val :: "char \<Rightarrow> nat" where
  "digit_val c = of_char c - 48"

text \<open>\<^verbatim>\<open>int(s)\<close> on a string of decimal digits.\<close>

definition int_of_digits :: "string \<Rightarrow> nat" where
  "int_of_digits s = foldl (\<lambda>n c. 10 * n + digit_val c) 0 s"

text \<open>\<^verbatim>\<open>str.startswith\<close>.\<close>

definition startswith :: "string \<Rightarrow> string \<Rightarrow> bool" where
  "startswith s pre = (take (length pre) s = pre)"

text \<open>
  \<^verbatim>\<open>os.path.basename\<close> and \<^verbatim>\<open>os.path.join\<close> depend on the platform, so the
  pipeline takes them as parameters. The POSIX versions
  (\<^verbatim>\<open>i = p.rfind('/') + 1; return p[i:]\<close>) are given for concrete runs.
\<close>

definition posix_basename :: "string \<Rightarrow> string" where
  "posix_basename p = rev (takeWhile (\<lambda>c. c \<noteq> CHR ''/'') (rev p))"

definition posix_join :: "string \<Rightarrow> string \<Rightarrow> string" where
  "posix_join a b =
     (if startswith b ''/'' then b
      else if a = [] \<or> last a = CHR ''/'' then a @ b
      else a @ ''/'' @ b)"

subsection \<open>The timestamp pattern\<close>

text \<open>
  \<^verbatim>\<open>timestamp_pattern = r'RecM0\d+_(\d{8})_(\d{6})'\<close>. Each piece of the pattern is a
  function from the text still to read to the text left over (and the captured group).
  \<^verbatim>\<open>\d+\<close> is greedy; giving back digits never helps, since the next piece is the
  literal underscore and the character given back would be a digit.
\<close>

definition re_literal :: "string \<Rightarrow> string \<Rightarrow> string option" where
  "re_literal lit s = (if startswith s lit then Some (drop (length lit) s) else None)"

definition re_digits_plus :: "string \<Rightarrow> string option" where
  "re_digits_plus s =
     (if takeWhile isdigit s = [] then None else Some (dropWhile isdigit s))"

definition re_digits_exact :: "nat \<Rightarrow> string \<Rightarrow> (string \<times> string) option" where
  "re_digits_exact n s =
     (if length (take n s) = n \<and> list_all isdigit (take n s)
      then Some (take n s, drop n s) else None)"

text \<open>A match of the whole pattern at the start of \<open>s\<close>: the two groups.\<close>

definition timestamp_pattern :: "string \<Rightarrow> (string \<times> string) option" where
  "timestamp_pattern s =
     do {
       r1 \<leftarrow> re_literal ''RecM0'' s;
       r2 \<leftarrow> re_digits_plus r1;
       r3 \<leftarrow> re_literal ''_'' r2;
       (date_str, r4) \<leftarrow> re_digits_exact 8 r3;
       r5 \<leftarrow> re_literal ''_'' r4;
       (time_str, r6) \<leftarrow> re_digits_exact 6 r5;
       Some (date_str, time_str)
     }"

text \<open>\<^verbatim>\<open>re.search\<close>: the match at the leftmost position that has one.\<close>

fun re_search :: "string \<Rightarrow> (string \<times> string) option" where
  "re_search [] = timestamp_pattern []"
| "re_search (c # cs) =
     (case timestamp_pattern (c # cs) of
        Some g \<Rightarrow> Some g
      | None \<Rightarrow> re_search cs)"

subsection \<open>\<^verbatim>\<open>datetime\<close>\<close>

text \<open>
  A naive \<^verbatim>\<open>datetime\<close> with microsecond 0: year, month, day, hour, minute, second.
  Python compares two of them field by field in this order, which is the lexicographic
  order of the tuple.
\<close>

type_synonym datetime = "nat \<times> nat \<times> nat \<times> nat \<times> nat \<times> nat"

definition is_leap :: "nat \<Rightarrow> bool" where
  "is_leap year = (year mod 4 = 0 \<and> (year mod 100 \<noteq> 0 \<or> year mod 400 = 0))"

text \<open>\<^verbatim>\<open>_DAYS_IN_MONTH\<close> is indexed by the month; index 0 is a placeholder.\<close>

definition days_in_month :: "nat \<Rightarrow> nat \<Rightarrow> nat" where
  "days_in_month year month =
     (if month = 2 \<and> is_leap year then 29
      else [0, 31, 28, 31, 30, 31, 30, 31, 31, 30, 31, 30, 31] ! month)"

text \<open>
  The constructor \<^verbatim>\<open>datetime(year, month, day, hour, minute, second)\<close>; \<open>None\<close> is
  its \<^verbatim>\<open>ValueError\<close> (\<^verbatim>\<open>MINYEAR = 1\<close>, \<^verbatim>\<open>MAXYEAR = 9999\<close>).
\<close>

definition datetime_new :: "nat \<Rightarrow> nat \<Rightarrow> nat \<Rightarrow> nat \<Rightarrow> nat \<Rightarrow> nat \<Rightarrow> datetime option" where
  "datetime_new year month day hour minute second =
     (if 1 \<le> year \<and> year \<le> 9999 \<and> 1 \<le> month \<and> month \<le> 12
         \<and> 1 \<le> day \<and> day \<le> days_in_month year month
         \<and> hour \<le> 23 \<and> minute \<le> 59 \<and> second \<le> 59
      then Some (year, month, day, hour, minute, second) else None)"

text \<open>
  \<^verbatim>\<open>datetime.strptime(f"{date_str}_{time_str}", "%Y%m%d_%H%M%S")\<close> for the strings the
  caller passes: eight digits and six digits. \<^verbatim>\<open>%Y\<close> reads four digits; the four
  digits left for \<^verbatim>\<open>%m%d\<close> and the six for \<^verbatim>\<open>%H%M%S\<close> can only be split two
  by two. The directives accept month 01-12, day 01-31, hour 00-23, minute 00-59 and
  second 00-61; then the constructor checks the calendar. Both failures are the
  \<^verbatim>\<open>ValueError\<close> the caller catches, here \<open>None\<close>.
\<close>

definition strptime :: "string \<Rightarrow> string \<Rightarrow> datetime option" where
  "strptime date_str time_str =
     (let year = int_of_digits (take 4 date_str);
          month = int_of_digits (take 2 (drop 4 date_str));
          day = int_of_digits (take 2 (drop 6 date_str));
          hour = int_of_digits (take 2 time_str);
          minute = int_of_digits (take 2 (drop 2 time_str));
          second = int_of_digits (take 2 (drop 4 time_str))
      in if 1 \<le> month \<and> month \<le> 12 \<and> 1 \<le> day \<and> day \<le> 31
            \<and> hour \<le> 23 \<and> minute \<le> 59 \<and> second \<le> 61
         then datetime_new year month day hour minute second
         else None)"

subsection \<open>Log events\<close>

text \<open>
  One constructor for each message the pipeline passes to \<^verbatim>\<open>log_message\<close>, with
  the values the message formats. The clock prefix \<^verbatim>\<open>log_message\<close> adds is left out.
\<close>

datatype log_event =
    LogParsed string datetime       \<comment> \<open>"Parsed: {filename} -> {dt}"\<close>
  | LogCouldNotParse string         \<comment> \<open>"Could not parse timestamp in: {filename}"\<close>
  | LogInvalidFormat string         \<comment> \<open>"Invalid filename format: {filename}"\<close>
  | LogNoValidTimestamp             \<comment> \<open>"No files with valid timestamp format found!"\<close>
  | LogSorted nat                   \<comment> \<open>"Sorted {n} files chronologically"\<close>
  | LogListed nat string            \<comment> \<open>"  {i+1}. {filename}"\<close>
  | LogSearching                    \<comment> \<open>"Searching for video files in folder..."\<close>
  | LogNoneInFolder                 \<comment> \<open>"No video files starting with 'RecM0' found in folder!"\<close>
  | LogFoundUnique nat              \<comment> \<open>"Found {n} unique video files starting with 'RecM0'"\<close>
  | LogProcessingSelected           \<comment> \<open>"Processing selected video files..."\<close>
  | LogNoFilesSelected              \<comment> \<open>"No files selected!"\<close>
  | LogProcessingCount nat          \<comment> \<open>"Processing {n} selected files"\<close>
  | LogSelectedValid nat            \<comment> \<open>"Selected {n} valid video files"\<close>
  | LogSelectedFile nat string      \<comment> \<open>"  {i}. {filename}"\<close>
  | LogNoValidSelected              \<comment> \<open>"No valid files selected!"\<close>
  | LogIgnored nat                  \<comment> \<open>"Ignored {n} files (don't start with 'RecM0'):"\<close>
  | LogIgnoredFile string           \<comment> \<open>"     {filename}"\<close>
  | LogStartingMerge                \<comment> \<open>"Starting video merge process..."\<close>
  | LogCheckFailed string           \<comment> \<open>"FFmpeg check failed: {status}"\<close>
  | LogUsingFFmpeg string           \<comment> \<open>"Using FFmpeg at: {ffmpeg_path}"\<close>
  | LogCreatingList                 \<comment> \<open>"Creating concat file list..."\<close>
  | LogAdded nat nat string         \<comment> \<open>"Added to list {i+1}/{n}: {basename}"\<close>
  | LogCreatedList nat              \<comment> \<open>"Created concat file list with {n} videos"\<close>
  | LogBuildingCommand              \<comment> \<open>"Building ffmpeg command..."\<close>
  | LogCommand "string list"        \<comment> \<open>"FFmpeg command: {' '.join(cmd)}"\<close>
  | LogExecuting                    \<comment> \<open>"Executing ffmpeg process... (this may take a while)"\<close>
  | LogMergeCompleted               \<comment> \<open>"Video merge completed successfully!"\<close>
  | LogFFmpegLine string            \<comment> \<open>"FFmpeg: {line.strip()}"\<close>
  | LogProcessFailed int string string
      \<comment> \<open>"FFmpeg process failed with return code {rc}", then "Stdout: {stdout}" and
          "Stderr: {stderr}", each only when not empty\<close>
  | LogTimedOut                     \<comment> \<open>"FFmpeg process timed out (over 5 minutes)"\<close>
  | LogRunError string              \<comment> \<open>"Error running FFmpeg process: {str(e)}"\<close>
  | LogUnexpectedMerge string       \<comment> \<open>"Unexpected error during merge: {str(e)}"\<close>
  | LogErrorType string             \<comment> \<open>"Error type: {type(e).__name__}"\<close>
  | LogDebugging string string bool
      \<comment> \<open>"Debugging information:" and its three lines: the path in use, the bundled path,
          whether the bundled path exists\<close>
  | LogCleanedUp                    \<comment> \<open>"Cleaned up temporary files"\<close>
  | LogCleanupWarning string        \<comment> \<open>"Warning: Could not clean up temporary file: {str(e)}"\<close>
  | LogOutputFolderMissing          \<comment> \<open>"Output folder does not exist!"\<close>
  | LogInputFolderMissing           \<comment> \<open>"Input folder does not exist!"\<close>
  | LogCancelled                    \<comment> \<open>"Merge cancelled by user"\<close>
  | LogMergeComplete                \<comment> \<open>"MERGE COMPLETE!"\<close>
  | LogOutputSaved string           \<comment> \<open>"Output saved to: {output_path}"\<close>

subsection \<open>\<^verbatim>\<open>parse_and_sort_files\<close>\<close>

type_synonym parsed_file = "datetime \<times> string \<times> string"

text \<open>
  One pass of the \<^verbatim>\<open>for file_path in video_files\<close> loop, on the loop's state: the
  list \<^verbatim>\<open>parsed_files\<close> and the messages logged so far.
\<close>

definition parse_step ::
  "(string \<Rightarrow> string) \<Rightarrow> parsed_file list \<times> log_event list \<Rightarrow> string
     \<Rightarrow> parsed_file list \<times> log_event list" where
  "parse_step basename st file_path =
     (let filename = basename file_path in
      case re_search filename of
        Some (date_str, time_str) \<Rightarrow>
          (case strptime date_str time_str of
             Some dt \<Rightarrow>
               (fst st @ [(dt, file_path, filename)], snd st @ [LogParsed filename dt])
           | None \<Rightarrow> (fst st, snd st @ [LogCouldNotParse filename]))
      | None \<Rightarrow> (fst st, snd st @ [LogInvalidFormat filename]))"

definition parse_loop ::
  "(string \<Rightarrow> string) \<Rightarrow> string list \<Rightarrow> parsed_file list \<times> log_event list" where
  "parse_loop basename video_files = foldl (parse_step basename) ([], []) video_files"

text \<open>
  \<^verbatim>\<open>parsed_files.sort(key=lambda x: x[0])\<close> is a stable sort on the timestamp, as
  \<^const>\<open>sort_key\<close> is. The result is the list \<^verbatim>\<open>sorted_files\<close> and the messages.
\<close>

definition sort_parsed :: "parsed_file list \<Rightarrow> parsed_file list" where
  "sort_parsed parsed_files = sort_key fst parsed_files"

definition parse_and_sort_files ::
  "(string \<Rightarrow> string) \<Rightarrow> string list \<Rightarrow> string list \<times> log_event list" where
  "parse_and_sort_files basename video_files =
     (let (parsed_files, log1) = parse_loop basename video_files in
      if parsed_files = [] then ([], log1 @ [LogNoValidTimestamp])
      else
        let parsed_sorted = sort_parsed parsed_files;
            sorted_files = map (\<lambda>(dt, file_path, filename). file_path) parsed_sorted
        in (sorted_files,
            log1 @ [LogSorted (length sorted_files)]
              @ map (\<lambda>(i, (dt, file_path, filename)). LogListed (i + 1) filename)
                  (enumerate 0 parsed_sorted)))"

text \<open>
  The timestamp the loop gives a path, and the entry it appends for it: the loop body
  read as a function of one file.
\<close>

definition timestamp_of :: "(string \<Rightarrow> string) \<Rightarrow> string \<Rightarrow> datetime option" where
  "timestamp_of basename file_path =
     (case re_search (basename file_path) of
        Some (date_str, time_str) \<Rightarrow> strptime date_str time_str
      | None \<Rightarrow> None)"

definition parse_file :: "(string \<Rightarrow> string) \<Rightarrow> string \<Rightarrow> parsed_file option" where
  "parse_file basename file_path =
     map_option (\<lambda>dt. (dt, file_path, basename file_path)) (timestamp_of basename file_path)"

definition parse_event :: "(string \<Rightarrow> string) \<Rightarrow> string \<Rightarrow> log_event" where
  "parse_event basename file_path =
     (case re_search (basename file_path) of
        None \<Rightarrow> LogInvalidFormat (basename file_path)
      | Some (date_str, time_str) \<Rightarrow>
          (case strptime date_str time_str of
             None \<Rightarrow> LogCouldNotParse (basename file_path)
           | Some dt \<Rightarrow> LogParsed (basename file_path) dt))"

text \<open>
  A date of the calendar and a time of day, as \<^verbatim>\<open>datetime\<close> understands them: years
  start at 1, the day is within the month's length under the Gregorian leap-year rule.
\<close>

definition valid_date_time :: "nat \<Rightarrow> nat \<Rightarrow> nat \<Rightarrow> nat \<Rightarrow> nat \<Rightarrow> nat \<Rightarrow> bool" where
  "valid_date_time year month day hour minute second =
     (1 \<le> year \<and> 1 \<le> month \<and> month \<le> 12 \<and> 1 \<le> day \<and> day \<le> days_in_month year month
      \<and> hour \<le> 23 \<and> minute \<le> 59 \<and> second \<le> 59)"

text \<open>The two groups of a match spell such a date and time.\<close>

definition date_time_valid :: "string \<Rightarrow> string \<Rightarrow> bool" where
  "date_time_valid date_str time_str =
     valid_date_time (int_of_digits (take 4 date_str)) (int_of_digits (take 2 (drop 4 date_str)))
       (int_of_digits (take 2 (drop 6 date_str))) (int_of_digits (take 2 time_str))
       (int_of_digits (take 2 (drop 2 time_str))) (int_of_digits (take 2 (drop 4 time_str)))"

subsection \<open>The parser on names of any characters\<close>

text \<open>
  A name in full: its code points. The class \<^verbatim>\<open>\d\<close> of a \<^verbatim>\<open>str\<close> pattern is the
  Unicode category Nd, the decimal digits of all scripts, and \<^verbatim>\<open>int\<close> reads them by
  their decimal value. That table belongs to Python, not to the repository, so the parser
  takes it as the parameter \<open>decimal\<close>: the value of a decimal digit, \<open>None\<close> for any other
  character. \<^verbatim>\<open>os.path.basename\<close> is a parameter as before.
\<close>

type_synonym codepoint = nat

type_synonym ustring = "codepoint list"

text \<open>A text of the source, such as \<^verbatim>\<open>'RecM0'\<close>, as code points.\<close>

definition ustr :: "string \<Rightarrow> ustring" where
  "ustr s = map of_char s"

text \<open>What Unicode says of the characters below U+0080: the digits are \<^verbatim>\<open>0\<close> to \<^verbatim>\<open>9\<close>.\<close>

definition ascii_rows :: "(codepoint \<Rightarrow> nat option) \<Rightarrow> bool" where
  "ascii_rows decimal =
     (\<forall>c<128. decimal c = (if 48 \<le> c \<and> c \<le> 57 then Some (c - 48) else None))"

text \<open>What it says of the characters below U+0100: there are no other digits.\<close>

definition latin1_rows :: "(codepoint \<Rightarrow> nat option) \<Rightarrow> bool" where
  "latin1_rows decimal =
     (\<forall>c<256. decimal c = (if 48 \<le> c \<and> c \<le> 57 then Some (c - 48) else None))"

text \<open>The pieces of \<^verbatim>\<open>r'RecM0\d+_(\d{8})_(\d{6})'\<close> and \<^verbatim>\<open>re.search\<close>, as above.\<close>

definition u_re_literal :: "ustring \<Rightarrow> ustring \<Rightarrow> ustring option" where
  "u_re_literal lit s = (if take (length lit) s = lit then Some (drop (length lit) s) else None)"

definition u_re_digits_plus :: "(codepoint \<Rightarrow> nat option) \<Rightarrow> ustring \<Rightarrow> ustring option" where
  "u_re_digits_plus decimal s =
     (if takeWhile (\<lambda>c. decimal c \<noteq> None) s = [] then None
      else Some (dropWhile (\<lambda>c. decimal c \<noteq> None) s))"

definition u_re_digits_exact ::
  "(codepoint \<Rightarrow> nat option) \<Rightarrow> nat \<Rightarrow> ustring \<Rightarrow> (ustring \<times> ustring) option" where
  "u_re_digits_exact decimal n s =
     (if length (take n s) = n \<and> list_all (\<lambda>c. decimal c \<noteq> None) (take n s)
      then Some (take n s, drop n s) else None)"

definition u_timestamp_pattern ::
  "(codepoint \<Rightarrow> nat option) \<Rightarrow> ustring \<Rightarrow> (ustring \<times> ustring) option" where
  "u_timestamp_pattern decimal s =
     do {
       r1 \<leftarrow> u_re_literal (ustr ''RecM0'') s;
       r2 \<leftarrow> u_re_digits_plus decimal r1;
       r3 \<leftarrow> u_re_literal (ustr ''_'') r2;
       (date_str, r4) \<leftarrow> u_re_digits_exact decimal 8 r3;
       r5 \<leftarrow> u_re_literal (ustr ''_'') r4;
       (time_str, r6) \<leftarrow> u_re_digits_exact decimal 6 r5;
       Some (date_str, time_str)
     }"

fun u_re_search :: "(codepoint \<Rightarrow> nat option) \<Rightarrow> ustring \<Rightarrow> (ustring \<times> ustring) option" where
  "u_re_search decimal [] = u_timestamp_pattern decimal []"
| "u_re_search decimal (c # cs) =
     (case u_timestamp_pattern decimal (c # cs) of
        Some g \<Rightarrow> Some g
      | None \<Rightarrow> u_re_search decimal cs)"

text \<open>\<^verbatim>\<open>int(s)\<close> on a string of decimal digits of any script.\<close>

definition u_int :: "(codepoint \<Rightarrow> nat option) \<Rightarrow> ustring \<Rightarrow> nat" where
  "u_int decimal s =
     foldl (\<lambda>n c. 10 * n + (case decimal c of Some v \<Rightarrow> v | None \<Rightarrow> 0)) 0 s"

text \<open>
  The directives of \<^verbatim>\<open>strptime\<close> on the two characters each of them gets here. Their
  regular expressions name ASCII digits, but for a \<^verbatim>\<open>\d\<close> in second place:
  \<^verbatim>\<open>%m\<close> is \<^verbatim>\<open>1[0-2]|0[1-9]\<close>, \<^verbatim>\<open>%d\<close> is \<^verbatim>\<open>3[0-1]|[1-2]\d|0[1-9]\<close>,
  \<^verbatim>\<open>%H\<close> is \<^verbatim>\<open>2[0-3]|[0-1]\d\<close>, \<^verbatim>\<open>%M\<close> is \<^verbatim>\<open>[0-5]\d\<close> and \<^verbatim>\<open>%S\<close> is
  \<^verbatim>\<open>6[0-1]|[0-5]\d\<close> (their shorter alternatives cannot take part in a match of all
  fifteen characters). \<^verbatim>\<open>%Y\<close> is \<^verbatim>\<open>\d\d\d\d\<close>, which the group of the pattern
  already is.
\<close>

definition between :: "char \<Rightarrow> char \<Rightarrow> codepoint \<Rightarrow> bool" where
  "between lo hi c = (of_char lo \<le> c \<and> c \<le> of_char hi)"

fun directive_m :: "ustring \<Rightarrow> bool" where
  "directive_m [a, b] =
     (a = of_char CHR ''1'' \<and> between CHR ''0'' CHR ''2'' b
      \<or> a = of_char CHR ''0'' \<and> between CHR ''1'' CHR ''9'' b)"
| "directive_m s = False"

fun directive_d :: "(codepoint \<Rightarrow> nat option) \<Rightarrow> ustring \<Rightarrow> bool" where
  "directive_d decimal [a, b] =
     (a = of_char CHR ''3'' \<and> between CHR ''0'' CHR ''1'' b
      \<or> between CHR ''1'' CHR ''2'' a \<and> decimal b \<noteq> None
      \<or> a = of_char CHR ''0'' \<and> between CHR ''1'' CHR ''9'' b)"
| "directive_d decimal s = False"

fun directive_H :: "(codepoint \<Rightarrow> nat option) \<Rightarrow> ustring \<Rightarrow> bool" where
  "directive_H decimal [a, b] =
     (a = of_char CHR ''2'' \<and> between CHR ''0'' CHR ''3'' b
      \<or> between CHR ''0'' CHR ''1'' a \<and> decimal b \<noteq> None)"
| "directive_H decimal s = False"

fun directive_M :: "(codepoint \<Rightarrow> nat option) \<Rightarrow> ustring \<Rightarrow> bool" where
  "directive_M decimal [a, b] = (between CHR ''0'' CHR ''5'' a \<and> decimal b \<noteq> None)"
| "directive_M decimal s = False"

fun directive_S :: "(codepoint \<Rightarrow> nat option) \<Rightarrow> ustring \<Rightarrow> bool" where
  "directive_S decimal [a, b] =
     (a = of_char CHR ''6'' \<and> between CHR ''0'' CHR ''1'' b
      \<or> between CHR ''0'' CHR ''5'' a \<and> decimal b \<noteq> None)"
| "directive_S decimal s = False"

text \<open>
  \<^verbatim>\<open>datetime.strptime(f"{date_str}_{time_str}", "%Y%m%d_%H%M%S")\<close> on eight and six
  decimal digits of any script: the directives, \<^verbatim>\<open>int\<close> on what they matched, and the
  constructor. \<open>None\<close> is the \<^verbatim>\<open>ValueError\<close>.
\<close>

definition u_strptime ::
  "(codepoint \<Rightarrow> nat option) \<Rightarrow> ustring \<Rightarrow> ustring \<Rightarrow> datetime option" where
  "u_strptime decimal date_str time_str =
     (if directive_m (take 2 (drop 4 date_str))
         \<and> directive_d decimal (take 2 (drop 6 date_str))
         \<and> directive_H decimal (take 2 time_str)
         \<and> directive_M decimal (take 2 (drop 2 time_str))
         \<and> directive_S decimal (take 2 (drop 4 time_str))
      then datetime_new (u_int decimal (take 4 date_str))
             (u_int decimal (take 2 (drop 4 date_str))) (u_int decimal (take 2 (drop 6 date_str)))
             (u_int decimal (take 2 time_str)) (u_int decimal (take 2 (drop 2 time_str)))
             (u_int decimal (take 2 (drop 4 time_str)))
      else None)"

text \<open>The messages of \<^verbatim>\<open>parse_and_sort_files\<close>, with names as code points.\<close>

datatype ulog_event =
    ULogParsed ustring datetime     \<comment> \<open>"Parsed: {filename} -> {dt}"\<close>
  | ULogCouldNotParse ustring       \<comment> \<open>"Could not parse timestamp in: {filename}"\<close>
  | ULogInvalidFormat ustring       \<comment> \<open>"Invalid filename format: {filename}"\<close>
  | ULogNoValidTimestamp            \<comment> \<open>"No files with valid timestamp format found!"\<close>
  | ULogSorted nat                  \<comment> \<open>"Sorted {n} files chronologically"\<close>
  | ULogListed nat ustring          \<comment> \<open>"  {i+1}. {filename}"\<close>

type_synonym uparsed_file = "datetime \<times> ustring \<times> ustring"

definition u_parse_step ::
  "(ustring \<Rightarrow> ustring) \<Rightarrow> (codepoint \<Rightarrow> nat option)
     \<Rightarrow> uparsed_file list \<times> ulog_event list \<Rightarrow> ustring
     \<Rightarrow> uparsed_file list \<times> ulog_event list" where
  "u_parse_step basename decimal st file_path =
     (let filename = basename file_path in
      case u_re_search decimal filename of
        Some (date_str, time_str) \<Rightarrow>
          (case u_strptime decimal date_str time_str of
             Some dt \<Rightarrow>
               (fst st @ [(dt, file_path, filename)], snd st @ [ULogParsed filename dt])
           | None \<Rightarrow> (fst st, snd st @ [ULogCouldNotParse filename]))
      | None \<Rightarrow> (fst st, snd st @ [ULogInvalidFormat filename]))"

definition u_parse_loop ::
  "(ustring \<Rightarrow> ustring) \<Rightarrow> (codepoint \<Rightarrow> nat option) \<Rightarrow> ustring list
     \<Rightarrow> uparsed_file list \<times> ulog_event list" where
  "u_parse_loop basename decimal video_files =
     foldl (u_parse_step basename decimal) ([], []) video_files"

definition u_parse_and_sort_files ::
  "(ustring \<Rightarrow> ustring) \<Rightarrow> (codepoint \<Rightarrow> nat option) \<Rightarrow> ustring list
     \<Rightarrow> ustring list \<times> ulog_event list" where
  "u_parse_and_sort_files basename decimal video_files =
     (let (parsed_files, log1) = u_parse_loop basename decimal video_files in
      if parsed_files = [] then ([], log1 @ [ULogNoValidTimestamp])
      else
        let parsed_sorted = sort_key fst parsed_files;
            sorted_files = map (\<lambda>(dt, file_path, filename). file_path) parsed_sorted
        in (sorted_files,
            log1 @ [ULogSorted (length sorted_files)]
              @ map (\<lambda>(i, (dt, file_path, filename)). ULogListed (i + 1) filename)
                  (enumerate 0 parsed_sorted)))"

text \<open>The timestamp the loop gives a path.\<close>

definition u_timestamp_of ::
  "(ustring \<Rightarrow> ustring) \<Rightarrow> (codepoint \<Rightarrow> nat option) \<Rightarrow> ustring \<Rightarrow> datetime option" where
  "u_timestamp_of basename decimal file_path =
     (case u_re_search decimal (basename file_path) of
        Some (date_str, time_str) \<Rightarrow> u_strptime decimal date_str time_str
      | None \<Rightarrow> None)"

text \<open>The entry and the message of one pass of the loop.\<close>

definition u_parse_file ::
  "(ustring \<Rightarrow> ustring) \<Rightarrow> (codepoint \<Rightarrow> nat option) \<Rightarrow> ustring \<Rightarrow> uparsed_file option" where
  "u_parse_file basename decimal file_path =
     map_option (\<lambda>dt. (dt, file_path, basename file_path))
       (u_timestamp_of basename decimal file_path)"

definition u_parse_event ::
  "(ustring \<Rightarrow> ustring) \<Rightarrow> (codepoint \<Rightarrow> nat option) \<Rightarrow> ustring \<Rightarrow> ulog_event" where
  "u_parse_event basename decimal file_path =
     (case u_re_search decimal (basename file_path) of
        None \<Rightarrow> ULogInvalidFormat (basename file_path)
      | Some (date_str, time_str) \<Rightarrow>
          (case u_strptime decimal date_str time_str of
             None \<Rightarrow> ULogCouldNotParse (basename file_path)
           | Some dt \<Rightarrow> ULogParsed (basename file_path) dt))"

text \<open>
  Two rows of the table for concrete runs: the ASCII digits and the Arabic-Indic digits
  U+0660 to U+0669.
\<close>

definition two_scripts :: "codepoint \<Rightarrow> nat option" where
  "two_scripts c =
     (if 48 \<le> c \<and> c \<le> 57 then Some (c - 48)
      else if 1632 \<le> c \<and> c \<le> 1641 then Some (c - 1632)
      else None)"

text \<open>A number written in Arabic-Indic digits, from its ASCII digits.\<close>

definition arabic_indic :: "string \<Rightarrow> ustring" where
  "arabic_indic s = map (\<lambda>c. of_char c + 1584) s"

subsection \<open>\<^verbatim>\<open>browse_input_files\<close>: the prefix filter of explicit-file mode\<close>

text \<open>
  One pass of the loop over the files the dialog returned, on the pair
  \<^verbatim>\<open>(valid_files, invalid_files)\<close>.
\<close>

definition filter_step ::
  "(string \<Rightarrow> string) \<Rightarrow> string list \<times> string list \<Rightarrow> string \<Rightarrow> string list \<times> string list" where
  "filter_step basename st file_path =
     (let filename = basename file_path in
      if startswith filename ''RecM0'' then (fst st @ [file_path], snd st)
      else (fst st, snd st @ [filename]))"

text \<open>
  The new value of \<^verbatim>\<open>self.selected_files\<close> and the messages. A cancelled dialog
  (no files) changes nothing.
\<close>

definition browse_input_files ::
  "(string \<Rightarrow> string) \<Rightarrow> string list \<Rightarrow> string list \<Rightarrow> string list \<times> log_event list" where
  "browse_input_files basename selected_files files =
     (if files = [] then (selected_files, [])
      else
        let (valid_files, invalid_files) = foldl (filter_step basename) ([], []) files in
        (valid_files,
         (if valid_files \<noteq> []
          then LogSelectedValid (length valid_files)
                 # map (\<lambda>(i, file_path). LogSelectedFile i (basename file_path))
                     (enumerate 1 valid_files)
          else [LogNoValidSelected])
         @ (if invalid_files \<noteq> []
            then LogIgnored (length invalid_files) # map LogIgnoredFile invalid_files
            else [])))"

subsection \<open>Discovery\<close>

definition video_extensions :: "string list" where
  "video_extensions = [''*.mp4'', ''*.MP4'', ''*.avi'', ''*.AVI'', ''*.mov'', ''*.MOV'']"

text \<open>
  The Python \<^verbatim>\<open>set\<close> \<^verbatim>\<open>video_files\<close> is a list without repetitions;
  \<^verbatim>\<open>update\<close> adds the elements that are not in it yet. \<^verbatim>\<open>list(video_files)\<close>
  enumerates the set in an order Python does not fix: the parameter \<open>set_order\<close>.
\<close>

definition set_update :: "string list \<Rightarrow> string list \<Rightarrow> string list" where
  "set_update s files = foldl (\<lambda>acc f. if f \<in> set acc then acc else acc @ [f]) s files"

definition find_video_files_in_folder ::
  "(string \<Rightarrow> string) \<Rightarrow> (string \<Rightarrow> string \<Rightarrow> string) \<Rightarrow> (string \<Rightarrow> string list)
     \<Rightarrow> (string list \<Rightarrow> string list) \<Rightarrow> string \<Rightarrow> string list \<times> log_event list" where
  "find_video_files_in_folder basename join glob set_order input_folder =
     (let video_set =
            foldl (\<lambda>acc ext. set_update acc (glob (join input_folder (''RecM0*'' @ ext))))
              [] video_extensions;
          video_files = set_order video_set
      in if video_files = [] then ([], [LogSearching, LogNoneInFolder])
         else
           let (sorted_files, log1) = parse_and_sort_files basename video_files
           in (sorted_files, [LogSearching, LogFoundUnique (length video_files)] @ log1))"

definition process_selected_files ::
  "(string \<Rightarrow> string) \<Rightarrow> string list \<Rightarrow> string list \<times> log_event list" where
  "process_selected_files basename selected_files =
     (if selected_files = [] then ([], [LogProcessingSelected, LogNoFilesSelected])
      else
        let (sorted_files, log1) = parse_and_sort_files basename selected_files
        in (sorted_files,
            [LogProcessingSelected, LogProcessingCount (length selected_files)] @ log1))"

subsection \<open>Playlist escaping\<close>

definition backslash :: char where
  "backslash = CHR 0x5C"

definition quote :: char where
  "quote = CHR 0x27"

definition newline :: char where
  "newline = CHR 0x0A"

text \<open>\<^verbatim>\<open>s.replace(old, new)\<close> for an \<^verbatim>\<open>old\<close> of one character.\<close>

definition replace :: "char \<Rightarrow> string \<Rightarrow> string \<Rightarrow> string" where
  "replace old new s = concat (map (\<lambda>c. if c = old then new else [c]) s)"

text \<open>\<^verbatim>\<open>video_file.replace('\\', '\\\\').replace("'", "\\'")\<close>\<close>

definition escape_path :: "string \<Rightarrow> string" where
  "escape_path video_file =
     replace quote [backslash, quote] (replace backslash [backslash, backslash] video_file)"

text \<open>\<^verbatim>\<open>f"file '{escaped_path}'\n"\<close>\<close>

definition playlist_line :: "string \<Rightarrow> string" where
  "playlist_line video_file = ''file '' @ [quote] @ escape_path video_file @ [quote, newline]"

subsection \<open>External processes\<close>

text \<open>
  An exception is its type's name and \<^verbatim>\<open>str(e)\<close>. What a started program does is the
  environment's: it exits with a return code, its two output streams and the seconds it
  ran, or it cannot be started, or it never exits.
\<close>

datatype exn = Exn (exn_type: string) (exn_msg: string)

datatype process =
    Exits int string string nat
  | CannotStart exn
  | NeverExits

datatype run_result =
    Completed int string string
  | Raised exn

text \<open>
  \<^verbatim>\<open>subprocess.run(cmd, capture_output=True, text=True, timeout=t)\<close> kills the program
  after \<open>t\<close> seconds and raises \<^verbatim>\<open>TimeoutExpired\<close>, so it always returns. The
  message of that exception, which names the command and the limit, is shortened here.
\<close>

fun run_timeout :: "nat \<Rightarrow> process \<Rightarrow> run_result" where
  "run_timeout t (Exits rc out err secs) =
     (if t < secs then Raised (Exn ''TimeoutExpired'' ''timed out'') else Completed rc out err)"
| "run_timeout t (CannotStart e) = Raised e"
| "run_timeout t NeverExits = Raised (Exn ''TimeoutExpired'' ''timed out'')"

text \<open>
  \<^verbatim>\<open>subprocess.run(cmd, capture_output=True, text=True)\<close> waits for the program
  however long it runs; \<open>None\<close> is the call that never returns.
\<close>

fun run_wait :: "process \<Rightarrow> run_result option" where
  "run_wait (Exits rc out err secs) = Some (Completed rc out err)"
| "run_wait (CannotStart e) = Some (Raised e)"
| "run_wait NeverExits = None"

subsection \<open>The environment of one job\<close>

datatype selection_mode = FolderMode | FilesMode

record env =
  os_basename :: "string \<Rightarrow> string"
  os_join :: "string \<Rightarrow> string \<Rightarrow> string"
  os_exists :: "string \<Rightarrow> bool"
  glob :: "string \<Rightarrow> string list"
  set_order :: "string list \<Rightarrow> string list"
  bundled_ffmpeg :: string                  \<comment> \<open>\<^verbatim>\<open>get_bundled_ffmpeg_path()\<close>\<close>
  spawn :: "string list \<Rightarrow> process"          \<comment> \<open>what a command line does when started\<close>
  mktemp :: "exn + string"                  \<comment> \<open>\<^verbatim>\<open>NamedTemporaryFile(..., delete=False)\<close>\<close>
  write_error :: "nat \<Rightarrow> exn option"        \<comment> \<open>the \<open>i\<close>-th \<^verbatim>\<open>f.write\<close> raising\<close>
  close_error :: "exn option"               \<comment> \<open>leaving the \<^verbatim>\<open>with\<close> block raising\<close>
  unlink_error :: "exn option"              \<comment> \<open>\<^verbatim>\<open>os.unlink\<close> raising\<close>
  selection_mode :: selection_mode
  input_folder :: string
  output_folder :: string
  selected_files :: "string list"
  overwrite_answer :: bool                  \<comment> \<open>the answer to \<^verbatim>\<open>askyesno\<close>\<close>

subsection \<open>\<^verbatim>\<open>check_ffmpeg_binary\<close>\<close>

text \<open>
  The function returns \<^verbatim>\<open>(True, status, path)\<close> or \<^verbatim>\<open>(False, status, None)\<close>.
\<close>

datatype ffmpeg_check = Available string string | Unavailable string

text \<open>\<^verbatim>\<open>result.stdout.split('\n')[0] if result.stdout else default\<close>\<close>

definition version_line :: "string \<Rightarrow> string \<Rightarrow> string" where
  "version_line out fallback =
     (if out = [] then fallback else takeWhile (\<lambda>c. c \<noteq> newline) out)"

definition check_system_ffmpeg :: "env \<Rightarrow> ffmpeg_check" where
  "check_system_ffmpeg e =
     (case run_timeout 10 (spawn e [''ffmpeg'', ''-version'']) of
        Completed rc out err \<Rightarrow>
          if rc = 0
          then Available (''Using system FFmpeg: '' @ version_line out ''System FFmpeg found'')
                 ''ffmpeg''
          else Unavailable ''FFmpeg binary found but returned error''
      | Raised x \<Rightarrow>
          if exn_type x = ''FileNotFoundError'' then Unavailable ''FFmpeg binary not found''
          else Unavailable (''Error checking FFmpeg: '' @ exn_msg x))"

definition check_ffmpeg_binary :: "env \<Rightarrow> ffmpeg_check" where
  "check_ffmpeg_binary e =
     (if os_exists e (bundled_ffmpeg e) then
        (case run_timeout 10 (spawn e [bundled_ffmpeg e, ''-version'']) of
           Completed rc out err \<Rightarrow>
             if rc = 0
             then Available
                    (''Using bundled FFmpeg: '' @ version_line out ''Bundled FFmpeg found'')
                    (bundled_ffmpeg e)
             else check_system_ffmpeg e
         | Raised x \<Rightarrow> check_system_ffmpeg e)
      else check_system_ffmpeg e)"

subsection \<open>\<^verbatim>\<open>merge_videos_with_ffmpeg\<close>\<close>

text \<open>\<^verbatim>\<open>s.split('\n')\<close>, \<^verbatim>\<open>sub in s\<close> and \<^verbatim>\<open>s.strip()\<close>.\<close>

fun split_on :: "char \<Rightarrow> string \<Rightarrow> string list" where
  "split_on sep [] = [[]]"
| "split_on sep (c # cs) =
     (if c = sep then [] # split_on sep cs
      else (case split_on sep cs of
              l # ls \<Rightarrow> (c # l) # ls
            | [] \<Rightarrow> [[c]]))"

fun contains :: "string \<Rightarrow> string \<Rightarrow> bool" where
  "contains sub [] = (sub = [])"
| "contains sub (c # cs) = (startswith (c # cs) sub \<or> contains sub cs)"

definition isspace :: "char \<Rightarrow> bool" where
  "isspace c = ((of_char c :: nat) \<in> set [9, 10, 11, 12, 13, 28, 29, 30, 31, 32, 133, 160])"

definition strip :: "string \<Rightarrow> string" where
  "strip s = rev (dropWhile isspace (rev (dropWhile isspace s)))"

text \<open>The lines of FFmpeg's error stream that the success branch logs.\<close>

definition ffmpeg_info :: "string \<Rightarrow> log_event list" where
  "ffmpeg_info stderr =
     (if stderr = [] then []
      else map (\<lambda>line. LogFFmpegLine (strip line))
             (filter (\<lambda>line. \<not> (contains ''frame='' line \<and> contains ''time='' line)
                        \<and> (contains ''Duration:'' line \<or> contains ''Stream'' line
                            \<or> contains ''Output'' line))
                (split_on newline stderr)))"

text \<open>
  What one call leaves behind: the value returned, the messages, the temporary playlist
  (its path, the lines written to it, whether it still exists on return) and the command
  line given to \<^verbatim>\<open>subprocess.run\<close>, if the call got that far.
\<close>

record merge_result =
  success :: bool
  merge_log :: "log_event list"
  playlist_file :: "string option"
  playlist_lines :: "string list"
  command :: "string list option"
  playlist_left :: bool

text \<open>
  The loop that writes the playlist, from entry \<open>i\<close> on: the exception that stopped it
  (if any), the lines written and the messages.
\<close>

fun write_loop ::
  "env \<Rightarrow> nat \<Rightarrow> nat \<Rightarrow> string list \<Rightarrow> exn option \<times> string list \<times> log_event list" where
  "write_loop e n i [] = (None, [], [])"
| "write_loop e n i (video_file # rest) =
     (case write_error e i of
        Some x \<Rightarrow> (Some x, [], [])
      | None \<Rightarrow>
          (case write_loop e n (i + 1) rest of
             (r, lines, lg) \<Rightarrow>
               (r, playlist_line video_file # lines,
                LogAdded (i + 1) n (os_basename e video_file) # lg)))"

text \<open>
  The \<^verbatim>\<open>with\<close> block: the loop, the closing message, and closing the file.
\<close>

definition write_playlist ::
  "env \<Rightarrow> string list \<Rightarrow> exn option \<times> string list \<times> log_event list" where
  "write_playlist e video_files =
     (case write_loop e (length video_files) 0 video_files of
        (Some x, lines, lg) \<Rightarrow> (Some x, lines, LogCreatingList # lg)
      | (None, lines, lg) \<Rightarrow>
          (close_error e, lines,
           LogCreatingList # lg @ [LogCreatedList (length video_files)]))"

definition ffmpeg_command :: "string \<Rightarrow> string \<Rightarrow> string \<Rightarrow> string list" where
  "ffmpeg_command ffmpeg_path concat_file_path output_path =
     [ffmpeg_path, ''-f'', ''concat'', ''-safe'', ''0'', ''-i'', concat_file_path,
      ''-c'', ''copy'', ''-avoid_negative_ts'', ''make_zero'', ''-y'', output_path]"

text \<open>
  The inner \<^verbatim>\<open>try\<close>: the call of \<^verbatim>\<open>subprocess.run\<close>, which is given no timeout,
  and its three handlers. \<open>None\<close>: the call never returns.
\<close>

definition run_ffmpeg :: "env \<Rightarrow> string list \<Rightarrow> (bool \<times> log_event list) option" where
  "run_ffmpeg e cmd =
     (case run_wait (spawn e cmd) of
        None \<Rightarrow> None
      | Some (Completed rc out err) \<Rightarrow>
          if rc = 0 then Some (True, LogMergeCompleted # ffmpeg_info err)
          else Some (False, [LogProcessFailed rc out err])
      | Some (Raised x) \<Rightarrow>
          if exn_type x = ''TimeoutExpired'' then Some (False, [LogTimedOut])
          else Some (False, [LogRunError (exn_msg x)]))"

text \<open>The handler of the outer \<^verbatim>\<open>try\<close>.\<close>

definition unexpected_error :: "env \<Rightarrow> string \<Rightarrow> exn \<Rightarrow> log_event list" where
  "unexpected_error e ffmpeg_path x =
     [LogUnexpectedMerge (exn_msg x), LogErrorType (exn_type x),
      LogDebugging ffmpeg_path (bundled_ffmpeg e) (os_exists e (bundled_ffmpeg e))]"

text \<open>
  The \<^verbatim>\<open>finally\<close> clause, when \<^verbatim>\<open>concat_file_path\<close> has been assigned: the file
  was created with \<^verbatim>\<open>delete=False\<close> and nothing else removes it, so it exists and
  \<^verbatim>\<open>os.unlink\<close> is called. The result: the messages, and whether the file is left.
\<close>

definition cleanup :: "env \<Rightarrow> log_event list \<times> bool" where
  "cleanup e =
     (case unlink_error e of
        None \<Rightarrow> ([LogCleanedUp], False)
      | Some x \<Rightarrow> ([LogCleanupWarning (exn_msg x)], True))"

definition merge_videos_with_ffmpeg ::
  "env \<Rightarrow> string list \<Rightarrow> string \<Rightarrow> merge_result option" where
  "merge_videos_with_ffmpeg e video_files output_path =
     (case check_ffmpeg_binary e of
        Unavailable status \<Rightarrow>
          Some \<lparr>success = False, merge_log = [LogStartingMerge, LogCheckFailed status],
                playlist_file = None, playlist_lines = [], command = None,
                playlist_left = False\<rparr>
      | Available status ffmpeg_path \<Rightarrow>
          (case mktemp e of
             Inl x \<Rightarrow>
               Some \<lparr>success = False,
                     merge_log = [LogStartingMerge, LogUsingFFmpeg ffmpeg_path]
                       @ unexpected_error e ffmpeg_path x,
                     playlist_file = None, playlist_lines = [], command = None,
                     playlist_left = False\<rparr>
           | Inr concat_file_path \<Rightarrow>
               (case write_playlist e video_files of
                  (Some x, lines, wlog) \<Rightarrow>
                    Some \<lparr>success = False,
                          merge_log = [LogStartingMerge, LogUsingFFmpeg ffmpeg_path] @ wlog
                            @ unexpected_error e ffmpeg_path x @ fst (cleanup e),
                          playlist_file = Some concat_file_path, playlist_lines = lines,
                          command = None, playlist_left = snd (cleanup e)\<rparr>
                | (None, lines, wlog) \<Rightarrow>
                    (let cmd = ffmpeg_command ffmpeg_path concat_file_path output_path in
                     case run_ffmpeg e cmd of
                       None \<Rightarrow> None
                     | Some (ok, rlog) \<Rightarrow>
                         Some \<lparr>success = ok,
                               merge_log = [LogStartingMerge, LogUsingFFmpeg ffmpeg_path]
                                 @ wlog @ [LogBuildingCommand, LogCommand cmd, LogExecuting]
                                 @ rlog @ fst (cleanup e),
                               playlist_file = Some concat_file_path,
                               playlist_lines = lines, command = Some cmd,
                               playlist_left = snd (cleanup e)\<rparr>))))"

subsection \<open>\<^verbatim>\<open>merge_videos\<close>: the job\<close>

datatype dialog =
    ErrorNoValidFiles string     \<comment> \<open>"No valid video files found in {mode_text}!"\<close>
  | AskOverwrite                 \<comment> \<open>"The file 'Panorama.mp4' already exists ..."\<close>
  | InfoSuccess string           \<comment> \<open>"Merging complete! ..." with the output folder\<close>
  | ErrorMergeFailed             \<comment> \<open>"Video merging failed! Please check the log for details."\<close>

definition find_video_files :: "env \<Rightarrow> string \<Rightarrow> string list \<times> log_event list" where
  "find_video_files e input_source =
     (if selection_mode e = FolderMode
      then find_video_files_in_folder (os_basename e) (os_join e) (glob e) (set_order e)
             input_source
      else process_selected_files (os_basename e) (selected_files e))"

text \<open>
  What one job leaves behind: the messages, the message boxes shown, and the call of
  \<^verbatim>\<open>merge_videos_with_ffmpeg\<close> (its arguments and what it did), if the job got that far.
\<close>

record job_result =
  job_log :: "log_event list"
  dialogs :: "dialog list"
  executor_call :: "(string list \<times> string) option"
  executor_result :: "merge_result option"

definition job_stopped :: "log_event list \<Rightarrow> dialog list \<Rightarrow> job_result" where
  "job_stopped lg ds =
     \<lparr>job_log = lg, dialogs = ds, executor_call = None, executor_result = None\<rparr>"

text \<open>The job from \<^verbatim>\<open>if not video_files\<close> on.\<close>

definition merge_found ::
  "env \<Rightarrow> string list \<Rightarrow> log_event list \<Rightarrow> job_result option" where
  "merge_found e video_files lg =
     (if video_files = [] then
        Some (job_stopped lg
                [ErrorNoValidFiles
                   (if selection_mode e = FolderMode then ''folder'' else ''selected files'')])
      else
        let output_path = os_join e (output_folder e) ''Panorama.mp4'' in
        if os_exists e output_path \<and> \<not> overwrite_answer e
        then Some (job_stopped (lg @ [LogCancelled]) [AskOverwrite])
        else
          let asked = (if os_exists e output_path then [AskOverwrite] else []) in
          case merge_videos_with_ffmpeg e video_files output_path of
            None \<Rightarrow> None
          | Some r \<Rightarrow>
              Some \<lparr>job_log = lg @ merge_log r
                      @ (if success r then [LogMergeComplete, LogOutputSaved output_path]
                         else []),
                    dialogs = asked
                      @ [if success r then InfoSuccess (output_folder e)
                         else ErrorMergeFailed],
                    executor_call = Some (video_files, output_path),
                    executor_result = Some r\<rparr>)"

definition merge_videos :: "env \<Rightarrow> job_result option" where
  "merge_videos e =
     (if \<not> os_exists e (output_folder e) then Some (job_stopped [LogOutputFolderMissing] [])
      else if selection_mode e = FolderMode \<and> \<not> os_exists e (input_folder e)
      then Some (job_stopped [LogInputFolderMissing] [])
      else
        case find_video_files e (input_folder e) of
          (video_files, lg) \<Rightarrow> merge_found e video_files lg)"

subsection \<open>A concrete environment\<close>

text \<open>
  A POSIX machine for concrete runs: the folders \<^verbatim>\<open>/in\<close> and \<^verbatim>\<open>/out\<close> exist,
  no FFmpeg is bundled, the one on the search path answers the version probe in a second
  and any other command line in twenty, and no file operation fails. The folder holds the
  four files of the specification's end-to-end scenario; \<^verbatim>\<open>notes.txt\<close> matches no
  pattern.
\<close>

definition example_glob :: "string \<Rightarrow> string list" where
  "example_glob pattern =
     (if pattern = ''/in/RecM0**.mp4''
      then [''/in/RecM01_20240101_090000.mp4'', ''/in/RecM02_20240101_091500.mp4'']
      else if pattern = ''/in/RecM0**.mov'' then [''/in/RecM03_20240101_083000.mov'']
      else [])"

definition example_spawn :: "string list \<Rightarrow> process" where
  "example_spawn cmd =
     (if cmd = [''ffmpeg'', ''-version''] then Exits 0 ''ffmpeg version 6.0'' [] 1
      else if take 1 cmd = [''ffmpeg''] then Exits 0 [] ''Output #0, mp4'' 20
      else CannotStart (Exn ''FileNotFoundError'' ''No such file or directory''))"

definition example_env :: env where
  "example_env =
     \<lparr>os_basename = posix_basename, os_join = posix_join,
      os_exists = (\<lambda>p. p = ''/in'' \<or> p = ''/out''),
      glob = example_glob, set_order = (\<lambda>xs. xs),
      bundled_ffmpeg = ''/app/ffmpeg/bin/ffmpeg.exe'', spawn = example_spawn,
      mktemp = Inr ''/tmp/tmpk3_concat.txt'', write_error = (\<lambda>i. None),
      close_error = None, unlink_error = None,
      selection_mode = FolderMode, input_folder = ''/in'', output_folder = ''/out'',
      selected_files = [], overwrite_answer = True\<rparr>"

section \<open>Properties of the parser and the sorter\<close>

subsection \<open>The loop as a filter\<close>

lemma parse_step_fst:
  "fst (parse_step bn st p) = fst st @ (case parse_file bn p of Some x \<Rightarrow> [x] | None \<Rightarrow> [])"
  by (simp add: parse_step_def parse_file_def timestamp_of_def Let_def split: option.splits prod.splits)

lemma fst_foldl_parse_step:
  "fst (foldl (parse_step bn) st fs) = fst st @ List.map_filter (parse_file bn) fs"
proof (induction fs arbitrary: st)
  case Nil
  then show ?case by (simp add: List.map_filter_simps)
next
  case (Cons p fs)
  show ?case
    by (simp add: Cons.IH parse_step_fst List.map_filter_simps split: option.splits)
qed

lemma fst_parse_loop: "fst (parse_loop bn fs) = List.map_filter (parse_file bn) fs"
  by (simp add: parse_loop_def fst_foldl_parse_step)

lemma files_parse_and_sort:
  "fst (parse_and_sort_files bn fs) = map (fst \<circ> snd) (sort_key fst (List.map_filter (parse_file bn) fs))"
proof -
  obtain ps lg where pl: "parse_loop bn fs = (ps, lg)" by (cases "parse_loop bn fs")
  then have ps: "ps = List.map_filter (parse_file bn) fs"
    using fst_parse_loop [of bn fs] by simp
  show ?thesis
    by (cases "ps = []") (simp_all add: parse_and_sort_files_def pl ps [symmetric] sort_parsed_def Let_def comp_def case_prod_unfold)
qed

lemma parse_file_SomeD:
  "parse_file bn p = Some x \<Longrightarrow> timestamp_of bn p = Some (fst x) \<and> fst (snd x) = p \<and> snd (snd x) = bn p"
  by (auto simp: parse_file_def)

lemma in_parsed_timestamp:
  "x \<in> set (List.map_filter (parse_file bn) fs) \<Longrightarrow> timestamp_of bn (fst (snd x)) = Some (fst x)"
proof (induction fs)
  case Nil
  then show ?case by (simp add: List.map_filter_simps)
next
  case (Cons p fs)
  show ?case
  proof (cases "parse_file bn p")
    case None
    with Cons show ?thesis by (simp add: List.map_filter_simps)
  next
    case (Some y)
    with Cons parse_file_SomeD [OF Some] show ?thesis
      by (auto simp add: List.map_filter_simps simp del: split_paired_All split_paired_Ex)
  qed
qed

lemma paths_parsed:
  "map (fst \<circ> snd) (List.map_filter (parse_file bn) fs) = filter (\<lambda>p. timestamp_of bn p \<noteq> None) fs"
  by (induction fs) (auto simp: List.map_filter_simps parse_file_def split: option.splits)

lemma timestamps_sorted_files:
  "map (timestamp_of bn) (fst (parse_and_sort_files bn fs))
     = map Some (map fst (sort_key fst (List.map_filter (parse_file bn) fs)))"
  by (simp add: files_parse_and_sort in_parsed_timestamp)

lemma parsed_of_all_parsing:
  "map (timestamp_of bn) fs = map Some ts \<Longrightarrow>
     map fst (List.map_filter (parse_file bn) fs) = ts \<and> map (fst \<circ> snd) (List.map_filter (parse_file bn) fs) = fs"
proof (induction fs arbitrary: ts)
  case Nil
  then show ?case by (simp add: List.map_filter_simps)
next
  case (Cons p fs)
  then obtain t ts' where ts: "ts = t # ts'" by (cases ts) auto
  with Cons.prems have "timestamp_of bn p = Some t" "map (timestamp_of bn) fs = map Some ts'" by auto
  with Cons.IH [of ts'] ts show ?case
    by (simp add: List.map_filter_simps parse_file_def)
qed

lemma sorted_input_unchanged:
  assumes "map (timestamp_of bn) fs = map Some ts" "sorted ts"
  shows "fst (parse_and_sort_files bn fs) = fs"
proof -
  from parsed_of_all_parsing [OF assms(1)]
  have a: "map fst (List.map_filter (parse_file bn) fs) = ts"
    and b: "map (fst \<circ> snd) (List.map_filter (parse_file bn) fs) = fs" by auto
  from a assms(2) have "sort_key fst (List.map_filter (parse_file bn) fs) = List.map_filter (parse_file bn) fs"
    by (intro sort_key_id_if_sorted) simp
  then show ?thesis by (simp add: files_parse_and_sort b)
qed

lemma filter_filter_implied:
  "(\<And>x. P x \<Longrightarrow> Q x) \<Longrightarrow> filter P (filter Q xs) = filter P xs"
  by (induction xs) auto

subsection \<open>Digits and dates\<close>

lemma digit_val_le: "isdigit c \<Longrightarrow> digit_val c \<le> 9"
  by (auto simp: isdigit_def digit_val_def)

lemma foldl_digits_bound:
  "list_all isdigit s \<Longrightarrow> foldl (\<lambda>n c. 10 * n + digit_val c) a s < (a + 1) * 10 ^ length s"
proof (induction s arbitrary: a)
  case Nil
  then show ?case by simp
next
  case (Cons c s)
  then have d: "digit_val c \<le> 9" and s: "list_all isdigit s" by (auto dest: digit_val_le)
  have "foldl (\<lambda>n c. 10 * n + digit_val c) (10 * a + digit_val c) s < (10 * a + digit_val c + 1) * 10 ^ length s"
    by (rule Cons.IH [OF s])
  also have "\<dots> \<le> (10 * a + 10) * 10 ^ length s"
    using d by (intro mult_le_mono1) simp
  also have "\<dots> = (a + 1) * 10 ^ length (c # s)" by (simp add: algebra_simps)
  finally show ?case by simp
qed

lemma int_of_digits_bound: "list_all isdigit s \<Longrightarrow> int_of_digits s < 10 ^ length s"
  using foldl_digits_bound [of s 0] by (simp add: int_of_digits_def)

lemma days_in_month_le: "month \<le> 12 \<Longrightarrow> days_in_month year month \<le> 31"
proof -
  assume "month \<le> 12"
  then have "month \<in> set [0 ..< 13]" by simp
  then show ?thesis
    unfolding days_in_month_def by (simp only: upt_conv_Cons upt_conv_Nil) (auto simp: nth_Cons')
qed

lemma strptime_valid:
  assumes "list_all isdigit date_str"
    and "valid_date_time (int_of_digits (take 4 date_str)) (int_of_digits (take 2 (drop 4 date_str)))
           (int_of_digits (take 2 (drop 6 date_str))) (int_of_digits (take 2 time_str))
           (int_of_digits (take 2 (drop 2 time_str))) (int_of_digits (take 2 (drop 4 time_str)))"
  shows "strptime date_str time_str =
           Some (int_of_digits (take 4 date_str), int_of_digits (take 2 (drop 4 date_str)),
                 int_of_digits (take 2 (drop 6 date_str)), int_of_digits (take 2 time_str),
                 int_of_digits (take 2 (drop 2 time_str)), int_of_digits (take 2 (drop 4 time_str)))"
proof -
  have "list_all isdigit (take 4 date_str)"
    using assms(1) by (auto simp: list_all_iff dest: in_set_takeD)
  from int_of_digits_bound [OF this]
  have "int_of_digits (take 4 date_str) < 10 ^ length (take 4 date_str)" .
  also have "(10::nat) ^ length (take 4 date_str) \<le> 10 ^ 4"
    by (rule power_increasing) simp_all
  finally have y: "int_of_digits (take 4 date_str) \<le> 9999" by simp
  from assms(2) have "int_of_digits (take 2 (drop 6 date_str)) \<le> 31"
    unfolding valid_date_time_def using days_in_month_le le_trans by blast
  with y assms(2) show ?thesis
    by (simp add: strptime_def datetime_new_def valid_date_time_def Let_def)
qed

lemma strptime_invalid:
  "\<not> date_time_valid date_str time_str \<Longrightarrow> strptime date_str time_str = None"
  by (auto simp: strptime_def datetime_new_def date_time_valid_def valid_date_time_def Let_def)

text \<open>On a group of digits, \<^verbatim>\<open>strptime\<close> succeeds exactly on the dates of the calendar.\<close>

lemma strptime_accepts_iff:
  assumes "list_all isdigit date_str"
  shows "(strptime date_str time_str \<noteq> None) = date_time_valid date_str time_str"
proof
  assume "strptime date_str time_str \<noteq> None"
  with strptime_invalid [of date_str time_str] show "date_time_valid date_str time_str"
    by blast
next
  assume "date_time_valid date_str time_str"
  with assms strptime_valid [of date_str time_str] show "strptime date_str time_str \<noteq> None"
    by (simp add: date_time_valid_def)
qed

subsection \<open>Where the search stops\<close>

lemma timestamp_pattern_groups:
  "timestamp_pattern s = Some (d, t) \<Longrightarrow>
     length d = 8 \<and> list_all isdigit d \<and> length t = 6 \<and> list_all isdigit t"
  by (auto simp: timestamp_pattern_def re_digits_exact_def split: bind_splits if_splits)

lemma re_search_groups:
  "re_search s = Some (d, t) \<Longrightarrow>
     length d = 8 \<and> list_all isdigit d \<and> length t = 6 \<and> list_all isdigit t"
proof (induction s)
  case Nil
  then show ?case by (simp add: timestamp_pattern_groups)
next
  case (Cons c s)
  then show ?case
    by (cases "timestamp_pattern (c # s)") (auto dest: timestamp_pattern_groups)
qed

lemma re_search_hit: "timestamp_pattern s = Some g \<Longrightarrow> re_search s = Some g"
  by (cases s) simp_all

lemma re_search_skip:
  "(\<forall>k<length pre. timestamp_pattern (drop k (pre @ s)) = None) \<Longrightarrow> re_search (pre @ s) = re_search s"
proof (induction pre)
  case Nil
  then show ?case by simp
next
  case (Cons c pre)
  from Cons.prems have 0: "timestamp_pattern (c # pre @ s) = None" by force
  from Cons.prems have "\<forall>k<length pre. timestamp_pattern (drop k (pre @ s)) = None"
    by (metis Suc_less_eq append_Cons drop_Suc_Cons length_Cons)
  with Cons.IH 0 show ?case by simp
qed

lemma not_isdigit_underscore: "\<not> isdigit CHR ''_''"
  by (simp add: isdigit_def)

lemma timestamp_pattern_token:
  assumes "ds \<noteq> []" "list_all isdigit ds" "length date_str = 8" "list_all isdigit date_str"
    "length time_str = 6" "list_all isdigit time_str"
  shows "timestamp_pattern (''RecM0'' @ ds @ ''_'' @ date_str @ ''_'' @ time_str @ post) = Some (date_str, time_str)"
proof -
  have 1: "re_literal ''RecM0'' (''RecM0'' @ ds @ ''_'' @ date_str @ ''_'' @ time_str @ post)
             = Some (ds @ ''_'' @ date_str @ ''_'' @ time_str @ post)"
    by (simp add: re_literal_def startswith_def)
  have tw: "takeWhile isdigit (ds @ CHR ''_'' # r) = ds" and dw: "dropWhile isdigit (ds @ CHR ''_'' # r) = CHR ''_'' # r" for r
    using assms(2) by (simp_all add: list_all_iff takeWhile_append2 dropWhile_append2 not_isdigit_underscore)
  have 2: "re_digits_plus (ds @ ''_'' @ date_str @ ''_'' @ time_str @ post) = Some (''_'' @ date_str @ ''_'' @ time_str @ post)"
    using assms(1) tw dw by (simp add: re_digits_plus_def)
  have 3: "re_literal ''_'' (''_'' @ r) = Some r" for r
    by (simp add: re_literal_def startswith_def)
  have 4: "re_digits_exact 8 (date_str @ r) = Some (date_str, r)" for r
    using assms(3,4) by (simp add: re_digits_exact_def)
  have 5: "re_digits_exact 6 (time_str @ r) = Some (time_str, r)" for r
    using assms(5,6) by (simp add: re_digits_exact_def)
  show ?thesis
    unfolding timestamp_pattern_def by (simp only: 1 2 3 4 5 bind.bind_lunit prod.case)
qed

subsection \<open>The messages of the loop\<close>

lemma parse_step_snd: "snd (parse_step bn st p) = snd st @ [parse_event bn p]"
  by (simp add: parse_step_def parse_event_def Let_def split: option.splits prod.splits)

lemma snd_foldl_parse_step:
  "snd (foldl (parse_step bn) st fs) = snd st @ map (parse_event bn) fs"
  by (induction fs arbitrary: st) (simp_all add: parse_step_snd)

lemma snd_parse_loop: "snd (parse_loop bn fs) = map (parse_event bn) fs"
  by (simp add: parse_loop_def snd_foldl_parse_step)

lemma log_parse_and_sort:
  "\<exists>rest. snd (parse_and_sort_files bn fs) = map (parse_event bn) fs @ rest"
proof -
  obtain ps lg where pl: "parse_loop bn fs = (ps, lg)" by (cases "parse_loop bn fs")
  then have "lg = map (parse_event bn) fs" using snd_parse_loop [of bn fs] by simp
  with pl show ?thesis
    by (cases "ps = []") (simp_all add: parse_and_sort_files_def Let_def)
qed

lemma parse_event_logged:
  "p \<in> set fs \<Longrightarrow> parse_event bn p \<in> set (snd (parse_and_sort_files bn fs))"
  using log_parse_and_sort [of bn fs] by auto

lemma set_files_parse_and_sort:
  "set (fst (parse_and_sort_files bn fs)) = {p \<in> set fs. timestamp_of bn p \<noteq> None}"
proof -
  have "set (fst (parse_and_sort_files bn fs)) = set (map (fst \<circ> snd) (List.map_filter (parse_file bn) fs))"
    unfolding files_parse_and_sort by (simp only: set_map set_sort)
  then show ?thesis unfolding paths_parsed by simp
qed

lemma map_filter_drop:
  "f p = None \<Longrightarrow> List.map_filter f (xs @ p # ys) = List.map_filter f (xs @ ys)"
  by (simp add: map_filter_def)

text \<open>The files the parser keeps are those whose leftmost match is a date and time.\<close>

lemma kept_iff:
  "(p \<in> set (fst (parse_and_sort_files bn fs)))
     = (p \<in> set fs \<and> (\<exists>d t. re_search (bn p) = Some (d, t) \<and> date_time_valid d t))"
proof -
  have "(timestamp_of bn p \<noteq> None)
      = (\<exists>d t. re_search (bn p) = Some (d, t) \<and> date_time_valid d t)"
  proof (cases "re_search (bn p)")
    case None
    then show ?thesis by (simp add: timestamp_of_def)
  next
    case (Some g)
    obtain d t where g: "g = (d, t)" by (cases g)
    from re_search_groups [of "bn p" d t] Some g have "list_all isdigit d" by simp
    from strptime_accepts_iff [OF this, of t] Some g show ?thesis
      by (simp add: timestamp_of_def)
  qed
  then show ?thesis by (simp add: set_files_parse_and_sort)
qed

text \<open>The definitions that evaluate the parser on a concrete name.\<close>

lemmas parser_defs = timestamp_of_def posix_basename_def timestamp_pattern_def re_literal_def
  re_digits_plus_def re_digits_exact_def startswith_def isdigit_def strptime_def int_of_digits_def
  digit_val_def datetime_new_def days_in_month_def is_leap_def

subsection \<open>The parser on one filename of Latin-1 characters\<close>

text \<open>
  When the leftmost match of the pattern spells a date of the calendar and a time of day,
  the parser gives the path that timestamp, keeps it and logs it as parsed.
\<close>

lemma leftmost_token_latin1:
  assumes name: "bn p = pre @ ''RecM0'' @ ds @ ''_'' @ date_str @ ''_'' @ time_str @ post"
    and tok: "ds \<noteq> []" "list_all isdigit ds" "length date_str = 8" "list_all isdigit date_str"
      "length time_str = 6" "list_all isdigit time_str"
    and leftmost: "\<forall>k<length pre. timestamp_pattern (drop k (bn p)) = None"
    and fields: "year = int_of_digits (take 4 date_str)"
      "month = int_of_digits (take 2 (drop 4 date_str))"
      "day = int_of_digits (take 2 (drop 6 date_str))"
      "hour = int_of_digits (take 2 time_str)"
      "minute = int_of_digits (take 2 (drop 2 time_str))"
      "second = int_of_digits (take 2 (drop 4 time_str))"
    and valid: "valid_date_time year month day hour minute second"
    and mem: "p \<in> set fs"
  shows "timestamp_of bn p = Some (year, month, day, hour, minute, second)
       \<and> p \<in> set (fst (parse_and_sort_files bn fs))
       \<and> LogParsed (bn p) (year, month, day, hour, minute, second)
           \<in> set (snd (parse_and_sort_files bn fs))"
proof -
  let ?tok = "''RecM0'' @ ds @ ''_'' @ date_str @ ''_'' @ time_str @ post"
  have "re_search (pre @ ?tok) = re_search ?tok"
    using leftmost unfolding name by (rule re_search_skip)
  also have "\<dots> = Some (date_str, time_str)"
    by (rule re_search_hit) (rule timestamp_pattern_token [OF tok])
  finally have rs: "re_search (bn p) = Some (date_str, time_str)" by (simp only: name)
  have sp: "strptime date_str time_str = Some (year, month, day, hour, minute, second)"
    unfolding fields using tok(4) valid [unfolded fields] by (rule strptime_valid)
  from rs sp have ts: "timestamp_of bn p = Some (year, month, day, hour, minute, second)"
    by (simp add: timestamp_of_def)
  from rs sp have ev: "parse_event bn p = LogParsed (bn p) (year, month, day, hour, minute, second)"
    by (simp add: parse_event_def)
  have 2: "p \<in> set (fst (parse_and_sort_files bn fs))"
    using ts mem by (simp add: set_files_parse_and_sort)
  have 3: "LogParsed (bn p) (year, month, day, hour, minute, second)
             \<in> set (snd (parse_and_sort_files bn fs))"
    using parse_event_logged [OF mem, of bn] ev by simp
  from ts 2 3 show ?thesis by blast
qed

subsection \<open>Files the parser rejects\<close>

text \<open>
  Claim C5. A file whose name has no match of the pattern, or whose match does not spell
  a date of the calendar and a time of day, is not in the output, is named in the log (as
  an invalid format, or as a timestamp that could not be parsed), and the output is what
  it would be without the file. The \<^verbatim>\<open>ValueError\<close> of \<^verbatim>\<open>strptime\<close> is the only
  exception of the loop and it is caught there: \<^const>\<open>parse_and_sort_files\<close> returns a
  value on every input.
\<close>

theorem unparsable_excluded:
  assumes "re_search (bn p) = None
         \<or> (\<exists>d t. re_search (bn p) = Some (d, t) \<and> \<not> date_time_valid d t)"
  shows "p \<notin> set (fst (parse_and_sort_files bn fs))
       \<and> (p \<in> set fs \<longrightarrow>
            (if re_search (bn p) = None then LogInvalidFormat (bn p)
             else LogCouldNotParse (bn p))
              \<in> set (snd (parse_and_sort_files bn fs)))
       \<and> fst (parse_and_sort_files bn (xs @ p # ys)) = fst (parse_and_sort_files bn (xs @ ys))"
proof -
  from assms have none: "timestamp_of bn p = None"
    by (auto simp: timestamp_of_def dest: strptime_invalid)
  from assms have ev: "parse_event bn p
      = (if re_search (bn p) = None then LogInvalidFormat (bn p) else LogCouldNotParse (bn p))"
    by (auto simp: parse_event_def dest: strptime_invalid)
  have 1: "p \<notin> set (fst (parse_and_sort_files bn fs))"
    using none by (simp add: set_files_parse_and_sort)
  have 2: "p \<in> set fs \<longrightarrow>
      (if re_search (bn p) = None then LogInvalidFormat (bn p) else LogCouldNotParse (bn p))
        \<in> set (snd (parse_and_sort_files bn fs))"
    using parse_event_logged [of p fs bn] ev by simp
  from none have "parse_file bn p = None" by (simp add: parse_file_def)
  then have 3: "fst (parse_and_sort_files bn (xs @ p # ys)) = fst (parse_and_sort_files bn (xs @ ys))"
    unfolding files_parse_and_sort by (simp only: map_filter_drop)
  from 1 2 3 show ?thesis by blast
qed

text \<open>
  The theorem at \<^verbatim>\<open>RecM01_20241301_000000.mp4\<close> (month 13), between two files that
  parse.
\<close>

theorem unparsable_excluded_witness:
  "''/v/RecM01_20241301_000000.mp4''
     \<notin> set (fst (parse_and_sort_files posix_basename
                   [''/v/RecM02_20240101_091500.mp4'', ''/v/RecM01_20241301_000000.mp4'',
                    ''/v/RecM03_20240101_083000.mov'']))
   \<and> LogCouldNotParse ''RecM01_20241301_000000.mp4''
       \<in> set (snd (parse_and_sort_files posix_basename
                     [''/v/RecM02_20240101_091500.mp4'', ''/v/RecM01_20241301_000000.mp4'',
                      ''/v/RecM03_20240101_083000.mov'']))
   \<and> fst (parse_and_sort_files posix_basename
            [''/v/RecM02_20240101_091500.mp4'', ''/v/RecM01_20241301_000000.mp4'',
             ''/v/RecM03_20240101_083000.mov''])
       = [''/v/RecM03_20240101_083000.mov'', ''/v/RecM02_20240101_091500.mp4'']"
proof -
  let ?p = "''/v/RecM01_20241301_000000.mp4''"
  let ?a = "''/v/RecM02_20240101_091500.mp4''"
  let ?b = "''/v/RecM03_20240101_083000.mov''"
  have bn: "posix_basename ?p = ''RecM01_20241301_000000.mp4''"
    by (simp add: posix_basename_def)
  have rs: "re_search (posix_basename ?p) = Some (''20241301'', ''000000'')"
    unfolding bn by code_simp
  have sp: "\<not> date_time_valid ''20241301'' ''000000''"
    by (simp add: date_time_valid_def valid_date_time_def int_of_digits_def digit_val_def)
  from rs sp have h: "re_search (posix_basename ?p) = None
      \<or> (\<exists>d t. re_search (posix_basename ?p) = Some (d, t) \<and> \<not> date_time_valid d t)"
    by blast
  have rest: "fst (parse_and_sort_files posix_basename ([?a] @ [?b])) = [?b, ?a]"
    by code_simp
  have mem: "?p \<in> set [?a, ?p, ?b]" by simp
  from unparsable_excluded [where bn = posix_basename and p = ?p and fs = "[?a, ?p, ?b]"
         and xs = "[?a]" and ys = "[?b]", OF h] rs mem rest
  show ?thesis by (simp add: bn)
qed

subsection \<open>The sorter\<close>

lemma mset_files_parse_and_sort:
  "mset (fst (parse_and_sort_files bn fs))
     = mset (filter (\<lambda>p. timestamp_of bn p \<noteq> None) fs)"
proof -
  let ?ps = "List.map_filter (parse_file bn) fs"
  have "mset (map (fst \<circ> snd) (sort_key fst ?ps)) = mset (map (fst \<circ> snd) ?ps)"
    by (simp only: mset_map mset_sort)
  then show ?thesis
    by (simp only: files_parse_and_sort paths_parsed)
qed

text \<open>
  Claim C2. \<^const>\<open>parse_and_sort_files\<close> returns the paths that parse, each as often as
  it is given, in an order in which their timestamps are non-decreasing; a list of paths
  that all parse and whose timestamps are already non-decreasing is returned as it is; so
  sorting the output again gives the output.
\<close>

theorem sorter_nondecreasing_idempotent:
  "mset (fst (parse_and_sort_files bn fs))
     = mset (filter (\<lambda>p. timestamp_of bn p \<noteq> None) fs)
   \<and> (\<exists>ts. map (timestamp_of bn) (fst (parse_and_sort_files bn fs)) = map Some ts \<and> sorted ts)
   \<and> (\<forall>ts. map (timestamp_of bn) fs = map Some ts \<and> sorted ts
          \<longrightarrow> fst (parse_and_sort_files bn fs) = fs)
   \<and> fst (parse_and_sort_files bn (fst (parse_and_sort_files bn fs)))
       = fst (parse_and_sort_files bn fs)"
proof -
  let ?ts = "map fst (sort_key fst (List.map_filter (parse_file bn) fs))"
  have 0: "mset (fst (parse_and_sort_files bn fs))
      = mset (filter (\<lambda>p. timestamp_of bn p \<noteq> None) fs)"
    by (rule mset_files_parse_and_sort)
  have 1: "map (timestamp_of bn) (fst (parse_and_sort_files bn fs)) = map Some ?ts"
    by (rule timestamps_sorted_files)
  have 2: "sorted ?ts" by simp
  from 1 2 have 3: "fst (parse_and_sort_files bn (fst (parse_and_sort_files bn fs)))
      = fst (parse_and_sort_files bn fs)"
    by (rule sorted_input_unchanged)
  from 0 1 2 3 show ?thesis by (blast intro: sorted_input_unchanged)
qed

text \<open>
  The theorem at the folder of the end-to-end scenario, given out of order and with
  \<^verbatim>\<open>notes.txt\<close>: the three segments come back oldest first, and that list is returned
  as it is when it is sorted again.
\<close>

theorem sorter_nondecreasing_idempotent_witness:
  "fst (parse_and_sort_files posix_basename
          [''/v/RecM01_20240101_090000.mp4'', ''/v/notes.txt'',
           ''/v/RecM02_20240101_091500.mp4'', ''/v/RecM03_20240101_083000.mov''])
     = [''/v/RecM03_20240101_083000.mov'', ''/v/RecM01_20240101_090000.mp4'',
        ''/v/RecM02_20240101_091500.mp4'']
   \<and> mset [''/v/RecM03_20240101_083000.mov'', ''/v/RecM01_20240101_090000.mp4'',
            ''/v/RecM02_20240101_091500.mp4'']
       = mset (filter (\<lambda>p. timestamp_of posix_basename p \<noteq> None)
           [''/v/RecM01_20240101_090000.mp4'', ''/v/notes.txt'',
            ''/v/RecM02_20240101_091500.mp4'', ''/v/RecM03_20240101_083000.mov''])
   \<and> map (timestamp_of posix_basename)
       [''/v/RecM03_20240101_083000.mov'', ''/v/RecM01_20240101_090000.mp4'',
        ''/v/RecM02_20240101_091500.mp4'']
       = map Some [(2024, 1, 1, 8, 30, 0), (2024, 1, 1, 9, 0, 0), (2024, 1, 1, 9, 15, 0)]
   \<and> sorted ([(2024, 1, 1, 8, 30, 0), (2024, 1, 1, 9, 0, 0), (2024, 1, 1, 9, 15, 0)]
               :: datetime list)
   \<and> fst (parse_and_sort_files posix_basename
            [''/v/RecM03_20240101_083000.mov'', ''/v/RecM01_20240101_090000.mp4'',
             ''/v/RecM02_20240101_091500.mp4''])
       = [''/v/RecM03_20240101_083000.mov'', ''/v/RecM01_20240101_090000.mp4'',
          ''/v/RecM02_20240101_091500.mp4'']"
proof -
  let ?in = "[''/v/RecM01_20240101_090000.mp4'', ''/v/notes.txt'',
              ''/v/RecM02_20240101_091500.mp4'', ''/v/RecM03_20240101_083000.mov'']"
  let ?fs = "[''/v/RecM03_20240101_083000.mov'', ''/v/RecM01_20240101_090000.mp4'',
              ''/v/RecM02_20240101_091500.mp4'']"
  let ?ts = "[(2024, 1, 1, 8, 30, 0), (2024, 1, 1, 9, 0, 0), (2024, 1, 1, 9, 15, 0)]
               :: datetime list"
  have out: "fst (parse_and_sort_files posix_basename ?in) = ?fs"
    by code_simp
  from sorter_nondecreasing_idempotent [of posix_basename ?in]
  have perm: "mset ?fs = mset (filter (\<lambda>p. timestamp_of posix_basename p \<noteq> None) ?in)"
    unfolding out by blast
  have "map (timestamp_of posix_basename) ?fs = map Some ?ts"
    by (simp add: parser_defs)
  moreover have "sorted ?ts"
    by simp
  ultimately have h: "map (timestamp_of posix_basename) ?fs = map Some ?ts \<and> sorted ?ts" ..
  with sorter_nondecreasing_idempotent [of posix_basename ?fs]
  have "fst (parse_and_sort_files posix_basename ?fs) = ?fs" by blast
  with out perm h show ?thesis by blast
qed

text \<open>
  Claim C9. The sort is stable: for every timestamp, the paths with that timestamp stand
  in the output in the order they have in the input.
\<close>

theorem sorter_stable:
  "filter (\<lambda>p. timestamp_of bn p = Some t) (fst (parse_and_sort_files bn fs))
     = filter (\<lambda>p. timestamp_of bn p = Some t) fs"
proof -
  let ?ps = "List.map_filter (parse_file bn) fs"
  have "filter (\<lambda>p. timestamp_of bn p = Some t) (map (fst \<circ> snd) (sort_key fst ?ps))
      = map (fst \<circ> snd) (filter (\<lambda>x. timestamp_of bn (fst (snd x)) = Some t) (sort_key fst ?ps))"
    by (simp add: filter_map comp_def)
  also have "filter (\<lambda>x. timestamp_of bn (fst (snd x)) = Some t) (sort_key fst ?ps)
      = filter (\<lambda>x. fst x = t) (sort_key fst ?ps)"
    by (rule filter_cong) (auto dest: in_parsed_timestamp)
  also have "\<dots> = filter (\<lambda>x. fst x = t) ?ps" by (rule sort_key_stable)
  also have "\<dots> = filter (\<lambda>x. timestamp_of bn (fst (snd x)) = Some t) ?ps"
    by (rule filter_cong) (auto dest: in_parsed_timestamp)
  also have "map (fst \<circ> snd) \<dots> = filter (\<lambda>p. timestamp_of bn p = Some t) (map (fst \<circ> snd) ?ps)"
    by (simp add: filter_map comp_def)
  also have "\<dots> = filter (\<lambda>p. timestamp_of bn p = Some t) fs"
    unfolding paths_parsed by (rule filter_filter_implied) simp
  finally show ?thesis by (simp add: files_parse_and_sort comp_def)
qed

text \<open>
  The theorem at two files of 09:00:00 given in the order \<^verbatim>\<open>RecM02\<close>,
  \<^verbatim>\<open>RecM01\<close>, with an earlier file after them: the two keep their order.
\<close>

theorem sorter_stable_witness:
  "fst (parse_and_sort_files posix_basename
          [''/v/RecM02_20240101_090000.mp4'', ''/v/RecM01_20240101_090000.mp4'',
           ''/v/RecM03_20240101_083000.mp4''])
     = [''/v/RecM03_20240101_083000.mp4'', ''/v/RecM02_20240101_090000.mp4'',
        ''/v/RecM01_20240101_090000.mp4'']
   \<and> filter (\<lambda>p. timestamp_of posix_basename p = Some (2024, 1, 1, 9, 0, 0))
       (fst (parse_and_sort_files posix_basename
               [''/v/RecM02_20240101_090000.mp4'', ''/v/RecM01_20240101_090000.mp4'',
                ''/v/RecM03_20240101_083000.mp4'']))
     = [''/v/RecM02_20240101_090000.mp4'', ''/v/RecM01_20240101_090000.mp4'']"
proof -
  let ?fs = "[''/v/RecM02_20240101_090000.mp4'', ''/v/RecM01_20240101_090000.mp4'',
              ''/v/RecM03_20240101_083000.mp4'']"
  have a: "fst (parse_and_sort_files posix_basename ?fs)
      = [''/v/RecM03_20240101_083000.mp4'', ''/v/RecM02_20240101_090000.mp4'',
         ''/v/RecM01_20240101_090000.mp4'']"
    by code_simp
  have b: "filter (\<lambda>p. timestamp_of posix_basename p = Some (2024, 1, 1, 9, 0, 0)) ?fs
      = [''/v/RecM02_20240101_090000.mp4'', ''/v/RecM01_20240101_090000.mp4'']"
    by code_simp
  from sorter_stable [of posix_basename "(2024, 1, 1, 9, 0, 0)" ?fs] a b
  show ?thesis by (simp only: simp_thms)
qed

subsection \<open>The prefix filter and the parser\<close>

lemma fst_foldl_filter_step:
  "fst (foldl (filter_step bn) st files)
     = fst st @ filter (\<lambda>p. startswith (bn p) ''RecM0'') files"
  by (induction files arbitrary: st) (simp_all add: filter_step_def Let_def)

lemma valid_files_browse:
  "files \<noteq> [] \<Longrightarrow>
     fst (browse_input_files bn sel files) = filter (\<lambda>p. startswith (bn p) ''RecM0'') files"
  using fst_foldl_filter_step [of bn "([], [])" files]
  by (simp add: browse_input_files_def case_prod_unfold Let_def)

lemma files_process_selected:
  "fst (process_selected_files bn sel) = fst (parse_and_sort_files bn sel)"
proof (cases "sel = []")
  case True
  then show ?thesis
    by (simp add: process_selected_files_def files_parse_and_sort List.map_filter_simps)
next
  case False
  then show ?thesis
    by (simp add: process_selected_files_def case_prod_unfold Let_def)
qed

lemma log_process_selected:
  "p \<in> set sel \<Longrightarrow> parse_event bn p \<in> set (snd (process_selected_files bn sel))"
proof -
  assume mem: "p \<in> set sel"
  then have "sel \<noteq> []" by auto
  with parse_event_logged [OF mem, of bn] show ?thesis
    by (simp add: process_selected_files_def case_prod_unfold Let_def)
qed

lemma startswith_split: "startswith s pre \<Longrightarrow> s = pre @ drop (length pre) s"
  unfolding startswith_def by (metis append_take_drop_id)

text \<open>
  After the prefix \<^verbatim>\<open>RecM0\<close> with no digit behind it, the pattern matches neither at
  the start of the name nor inside the prefix.
\<close>

lemma re_search_after_prefix:
  assumes "startswith s ''RecM0''" and "\<not> (5 < length s \<and> isdigit (s ! 5))"
  shows "timestamp_pattern s = None \<and> re_search s = re_search (drop 5 s)"
proof -
  define rest where "rest = drop 5 s"
  have len: "length ''RecM0'' = (5::nat)" by simp
  have s: "s = ''RecM0'' @ rest"
    using startswith_split [OF assms(1)] unfolding len rest_def .
  have nod: "takeWhile isdigit rest = []"
  proof (cases rest)
    case Nil
    then show ?thesis by simp
  next
    case (Cons c r)
    with assms(2) s have "\<not> isdigit c" by simp
    with Cons show ?thesis by simp
  qed
  have 0: "timestamp_pattern (''RecM0'' @ rest) = None"
    using nod by (simp add: timestamp_pattern_def re_literal_def startswith_def re_digits_plus_def)
  have "re_search (''RecM0'' @ rest) = re_search rest"
    using 0 by (simp add: timestamp_pattern_def re_literal_def startswith_def)
  with 0 show ?thesis unfolding rest_def [symmetric] s by simp
qed

text \<open>
  Claim C10, as amended. A file whose name starts with \<^verbatim>\<open>RecM0\<close>, has no digit right
  after it and no match of the pattern further on passes the prefix filter of
  \<^verbatim>\<open>browse_input_files\<close>; the pattern does not match at the start of its name; and
  \<^verbatim>\<open>process_selected_files\<close> leaves it out, logging an invalid filename format.
\<close>

theorem prefix_without_digit_excluded:
  assumes pre: "startswith (bn p) ''RecM0''"
    and nod: "\<not> (5 < length (bn p) \<and> isdigit (bn p ! 5))"
    and later: "re_search (drop 5 (bn p)) = None"
    and mem: "p \<in> set files"
  shows "p \<in> set (fst (browse_input_files bn sel files))
       \<and> timestamp_pattern (bn p) = None
       \<and> p \<notin> set (fst (process_selected_files bn (fst (browse_input_files bn sel files))))
       \<and> LogInvalidFormat (bn p)
           \<in> set (snd (process_selected_files bn (fst (browse_input_files bn sel files))))"
proof -
  let ?sel = "fst (browse_input_files bn sel files)"
  from mem have "files \<noteq> []" by auto
  then have sel: "?sel = filter (\<lambda>p. startswith (bn p) ''RecM0'') files"
    by (rule valid_files_browse)
  with pre mem have 1: "p \<in> set ?sel" by simp
  from re_search_after_prefix [OF pre nod] later
  have 2: "timestamp_pattern (bn p) = None" and rs: "re_search (bn p) = None" by simp_all
  from rs have "timestamp_of bn p = None" by (simp add: timestamp_of_def)
  then have 3: "p \<notin> set (fst (process_selected_files bn ?sel))"
    by (simp add: files_process_selected set_files_parse_and_sort)
  from rs have "parse_event bn p = LogInvalidFormat (bn p)" by (simp add: parse_event_def)
  with log_process_selected [OF 1, of bn]
  have 4: "LogInvalidFormat (bn p) \<in> set (snd (process_selected_files bn ?sel))" by simp
  from 1 2 3 4 show ?thesis by blast
qed

text \<open>The theorem at \<^verbatim>\<open>RecM0_20240101_000000.mp4\<close>, selected with a file that parses.\<close>

theorem prefix_without_digit_excluded_witness:
  "fst (browse_input_files posix_basename []
          [''/v/RecM0_20240101_000000.mp4'', ''/v/RecM01_20240101_090000.mp4''])
     = [''/v/RecM0_20240101_000000.mp4'', ''/v/RecM01_20240101_090000.mp4'']
   \<and> timestamp_pattern ''RecM0_20240101_000000.mp4'' = None
   \<and> ''/v/RecM0_20240101_000000.mp4''
       \<notin> set (fst (process_selected_files posix_basename
                     [''/v/RecM0_20240101_000000.mp4'', ''/v/RecM01_20240101_090000.mp4'']))
   \<and> LogInvalidFormat ''RecM0_20240101_000000.mp4''
       \<in> set (snd (process_selected_files posix_basename
                     [''/v/RecM0_20240101_000000.mp4'', ''/v/RecM01_20240101_090000.mp4'']))"
proof -
  let ?p = "''/v/RecM0_20240101_000000.mp4''"
  let ?files = "[?p, ''/v/RecM01_20240101_090000.mp4'']"
  have bn: "posix_basename ?p = ''RecM0_20240101_000000.mp4''"
    by (simp add: posix_basename_def)
  have pre: "startswith (posix_basename ?p) ''RecM0''"
    unfolding bn by (simp add: startswith_def)
  have nod: "\<not> (5 < length (posix_basename ?p) \<and> isdigit (posix_basename ?p ! 5))"
    unfolding bn by (simp add: isdigit_def)
  have later: "re_search (drop 5 (posix_basename ?p)) = None"
    unfolding bn by code_simp
  have mem: "?p \<in> set ?files" by simp
  have sel: "fst (browse_input_files posix_basename [] ?files) = ?files"
    by code_simp
  from prefix_without_digit_excluded [where bn = posix_basename and p = ?p and files = ?files
         and sel = "[]", OF pre nod later mem]
  show ?thesis unfolding sel bn by simp
qed

text \<open>
  The claim as stated fails for a name that starts with \<^verbatim>\<open>RecM0_\<close> and holds a whole
  token further on: the file passes the filter and the parser accepts it.
\<close>

theorem prefix_without_digit_counterexample:
  "startswith ''RecM0_RecM01_20240101_000000.mp4'' ''RecM0''
   \<and> \<not> isdigit (''RecM0_RecM01_20240101_000000.mp4'' ! 5)
   \<and> fst (browse_input_files posix_basename [] [''/v/RecM0_RecM01_20240101_000000.mp4''])
       = [''/v/RecM0_RecM01_20240101_000000.mp4'']
   \<and> fst (process_selected_files posix_basename [''/v/RecM0_RecM01_20240101_000000.mp4''])
       = [''/v/RecM0_RecM01_20240101_000000.mp4'']"
  by code_simp

subsection \<open>Playlist escaping\<close>

lemma escape_path_Nil: "escape_path [] = []"
  by (simp add: escape_path_def replace_def)

lemma escape_path_Cons:
  "escape_path (c # p)
     = (if c = backslash then [backslash, backslash]
        else if c = quote then [backslash, quote] else [c]) @ escape_path p"
  by (simp add: escape_path_def replace_def backslash_def quote_def)

lemma escape_path_by_char:
  "escape_path p
     = concat (map (\<lambda>c. if c = backslash then [backslash, backslash]
                         else if c = quote then [backslash, quote] else [c]) p)"
  by (induction p) (simp_all add: escape_path_Nil escape_path_Cons)

lemma escape_path_plain:
  "backslash \<notin> set p \<Longrightarrow> quote \<notin> set p \<Longrightarrow> escape_path p = p"
  by (induction p) (auto simp: escape_path_Nil escape_path_Cons)

text \<open>
  Claim C3, as amended. Backslashes are doubled first and quotes escaped second, so each
  backslash becomes two, each quote becomes a backslash and the quote, and the backslash
  put before a quote is not doubled. The path \<^verbatim>\<open>C:\cam's\RecM01_20240101_000000.mp4\<close>
  escapes to \<^verbatim>\<open>C:\\cam\'s\\RecM01_20240101_000000.mp4\<close>. A path with neither character
  is left as it is.
\<close>

theorem escape_path_rule:
  "escape_path p
     = concat (map (\<lambda>c. if c = backslash then [backslash, backslash]
                         else if c = quote then [backslash, quote] else [c]) p)
   \<and> escape_path (''C:'' @ [backslash] @ ''cam'' @ [quote] @ ''s'' @ [backslash]
                    @ ''RecM01_20240101_000000.mp4'')
       = ''C:'' @ [backslash, backslash] @ ''cam'' @ [backslash, quote] @ ''s''
           @ [backslash, backslash] @ ''RecM01_20240101_000000.mp4''
   \<and> (backslash \<notin> set p \<and> quote \<notin> set p \<longrightarrow> escape_path p = p)"
proof -
  have "escape_path (''C:'' @ [backslash] @ ''cam'' @ [quote] @ ''s'' @ [backslash]
                    @ ''RecM01_20240101_000000.mp4'')
       = ''C:'' @ [backslash, backslash] @ ''cam'' @ [backslash, quote] @ ''s''
           @ [backslash, backslash] @ ''RecM01_20240101_000000.mp4''"
    by (simp add: escape_path_def replace_def backslash_def quote_def)
  then show ?thesis
    using escape_path_by_char [of p] escape_path_plain [of p] by blast
qed

text \<open>The theorem at a POSIX path, which has neither character.\<close>

theorem escape_path_rule_witness:
  "backslash \<notin> set ''/videos/RecM01_20240101_000000.mp4''
   \<and> quote \<notin> set ''/videos/RecM01_20240101_000000.mp4''
   \<and> escape_path ''/videos/RecM01_20240101_000000.mp4'' = ''/videos/RecM01_20240101_000000.mp4''"
proof -
  have h: "backslash \<notin> set ''/videos/RecM01_20240101_000000.mp4''
      \<and> quote \<notin> set ''/videos/RecM01_20240101_000000.mp4''"
    by (simp add: backslash_def quote_def)
  with escape_path_rule [of "''/videos/RecM01_20240101_000000.mp4''"] show ?thesis by blast
qed

text \<open>
  The escaped form the specification prints for that path is
  \<^verbatim>\<open>C:\\\\cam\\'s\\RecM01_20240101_000000.mp4\<close>: four backslashes after \<^verbatim>\<open>C:\<close>,
  two before the quote, two before the file name. The code produces two, one and two. Read
  as a string literal, where a pair stands for one backslash, the printed form has two, one
  and one, which is not the code's result either.
\<close>

theorem escape_path_spec_form_counterexample:
  "escape_path (''C:'' @ [backslash] @ ''cam'' @ [quote] @ ''s'' @ [backslash]
                  @ ''RecM01_20240101_000000.mp4'')
     \<noteq> ''C:'' @ [backslash, backslash, backslash, backslash] @ ''cam''
         @ [backslash, backslash, quote] @ ''s'' @ [backslash, backslash]
         @ ''RecM01_20240101_000000.mp4''
   \<and> escape_path (''C:'' @ [backslash] @ ''cam'' @ [quote] @ ''s'' @ [backslash]
                    @ ''RecM01_20240101_000000.mp4'')
       \<noteq> ''C:'' @ [backslash, backslash] @ ''cam'' @ [backslash, quote] @ ''s''
           @ [backslash] @ ''RecM01_20240101_000000.mp4''"
  by (simp add: escape_path_def replace_def backslash_def quote_def)

subsection \<open>Discovery in a folder\<close>

lemma distinct_set_update: "distinct s \<Longrightarrow> distinct (set_update s files)"
  unfolding set_update_def by (induction files arbitrary: s) simp_all

lemma distinct_foldl_set_update:
  "distinct acc \<Longrightarrow> distinct (foldl (\<lambda>acc ext. set_update acc (g ext)) acc exts)"
  by (induction exts arbitrary: acc) (simp_all add: distinct_set_update)

lemma distinct_parse_and_sort:
  assumes "distinct fs"
  shows "distinct (fst (parse_and_sort_files bn fs))"
proof -
  let ?ps = "List.map_filter (parse_file bn) fs"
  from assms have "distinct (map (fst \<circ> snd) ?ps)"
    unfolding paths_parsed by simp
  then have "distinct ?ps \<and> inj_on (fst \<circ> snd) (set ?ps)"
    by (simp only: distinct_map)
  then have "distinct (sort_key fst ?ps) \<and> inj_on (fst \<circ> snd) (set (sort_key fst ?ps))"
    by (simp only: distinct_sort set_sort)
  then show ?thesis
    unfolding files_parse_and_sort by (simp only: distinct_map)
qed

text \<open>
  Claim C8. Whatever the patterns match, and in whatever order the set is enumerated
  (each element once), \<^verbatim>\<open>find_video_files_in_folder\<close> returns no path twice.
\<close>

theorem discovery_no_duplicates:
  assumes "\<And>xs. distinct xs \<Longrightarrow> distinct (enum xs)"
  shows "distinct (fst (find_video_files_in_folder bn join g enum folder))"
proof -
  let ?set = "foldl (\<lambda>acc ext. set_update acc (g (join folder (''RecM0*'' @ ext))))
                [] video_extensions"
  have "distinct ?set" by (rule distinct_foldl_set_update) simp
  then have "distinct (enum ?set)" by (rule assms)
  then have "distinct (fst (parse_and_sort_files bn (enum ?set)))"
    by (rule distinct_parse_and_sort)
  then show ?thesis
    by (simp add: find_video_files_in_folder_def Let_def case_prod_unfold)
qed

text \<open>
  The theorem at a folder where one file matches both \<^verbatim>\<open>RecM0**.mp4\<close> and
  \<^verbatim>\<open>RecM0**.MP4\<close>, as on a file system that ignores case, with the set enumerated in
  reverse.
\<close>

theorem discovery_no_duplicates_witness:
  "fst (find_video_files_in_folder posix_basename posix_join
          (\<lambda>pattern.
             if pattern = ''/in/RecM0**.mp4'' \<or> pattern = ''/in/RecM0**.MP4''
             then [''/in/RecM01_20240101_090000.mp4'']
             else if pattern = ''/in/RecM0**.mov'' then [''/in/RecM03_20240101_083000.mov'']
             else [])
          rev ''/in'')
     = [''/in/RecM03_20240101_083000.mov'', ''/in/RecM01_20240101_090000.mp4'']
   \<and> distinct (fst (find_video_files_in_folder posix_basename posix_join
          (\<lambda>pattern.
             if pattern = ''/in/RecM0**.mp4'' \<or> pattern = ''/in/RecM0**.MP4''
             then [''/in/RecM01_20240101_090000.mp4'']
             else if pattern = ''/in/RecM0**.mov'' then [''/in/RecM03_20240101_083000.mov'']
             else [])
          rev ''/in''))"
proof -
  let ?g = "\<lambda>pattern.
             if pattern = ''/in/RecM0**.mp4'' \<or> pattern = ''/in/RecM0**.MP4''
             then [''/in/RecM01_20240101_090000.mp4'']
             else if pattern = ''/in/RecM0**.mov'' then [''/in/RecM03_20240101_083000.mov'']
             else []"
  have h: "\<And>xs :: string list. distinct xs \<Longrightarrow> distinct (rev xs)" by simp
  have eq: "fst (find_video_files_in_folder posix_basename posix_join ?g rev ''/in'')
      = [''/in/RecM03_20240101_083000.mov'', ''/in/RecM01_20240101_090000.mp4'']"
    by code_simp
  from discovery_no_duplicates [where enum = rev and bn = posix_basename and join = posix_join
         and g = ?g and folder = "''/in''", OF h] eq
  show ?thesis by blast
qed

section \<open>Properties of the parser on names of any characters\<close>

subsection \<open>ASCII digits in the table\<close>

lemma length_ustr: "length (ustr s) = length s"
  by (simp add: ustr_def)

lemma take_ustr: "take n (ustr s) = ustr (take n s)"
  by (simp add: ustr_def take_map)

lemma drop_ustr: "drop n (ustr s) = ustr (drop n s)"
  by (simp add: ustr_def drop_map)

lemma isdigit_code:
  "isdigit c \<Longrightarrow> 48 \<le> (of_char c :: nat) \<and> (of_char c :: nat) \<le> 57
     \<and> digit_val c = of_char c - 48"
  by (auto simp: isdigit_def digit_val_def)

lemma ascii_digit_decimal:
  assumes "ascii_rows decimal" and "isdigit c"
  shows "decimal (of_char c) = Some (digit_val c)"
proof -
  from isdigit_code [OF assms(2)]
  have r: "48 \<le> (of_char c :: nat)" "(of_char c :: nat) \<le> 57" "digit_val c = of_char c - 48"
    by simp_all
  then have "(of_char c :: nat) < 128" by simp
  with assms(1) r show ?thesis by (simp add: ascii_rows_def)
qed

lemma ascii_underscore: "ascii_rows decimal \<Longrightarrow> decimal 95 = None"
  by (simp add: ascii_rows_def)

lemma ascii_digits_decimal:
  "ascii_rows decimal \<Longrightarrow> list_all isdigit s \<Longrightarrow>
     list_all (\<lambda>c. decimal c \<noteq> None) (ustr s)"
  by (induction s) (simp_all add: ustr_def ascii_digit_decimal)

lemma foldl_u_int:
  "ascii_rows decimal \<Longrightarrow> list_all isdigit s \<Longrightarrow>
     foldl (\<lambda>n c. 10 * n + (case decimal c of Some v \<Rightarrow> v | None \<Rightarrow> 0)) a (ustr s)
       = foldl (\<lambda>n c. 10 * n + digit_val c) a s"
  by (induction s arbitrary: a) (simp_all add: ustr_def ascii_digit_decimal)

lemma u_int_ustr:
  "ascii_rows decimal \<Longrightarrow> list_all isdigit s \<Longrightarrow> u_int decimal (ustr s) = int_of_digits s"
  by (simp add: u_int_def int_of_digits_def foldl_u_int)

subsection \<open>The directives on two ASCII digits\<close>

lemma two_digits:
  assumes "length s = 2" and "list_all isdigit s"
  obtains a b where "s = [a, b]" and "isdigit a" and "isdigit b"
    and "int_of_digits s = 10 * digit_val a + digit_val b"
proof -
  from assms(1) obtain a b where s: "s = [a, b]"
    by (cases s; cases "tl s") auto
  with assms(2) have "isdigit a" "isdigit b" by simp_all
  moreover from s have "int_of_digits s = 10 * digit_val a + digit_val b"
    by (simp add: int_of_digits_def)
  ultimately show ?thesis using s that by blast
qed

lemma directive_m_ascii:
  assumes "length s = 2" "list_all isdigit s" "1 \<le> int_of_digits s" "int_of_digits s \<le> 12"
  shows "directive_m (ustr s)"
proof -
  from assms(1,2) obtain a b where s: "s = [a, b]" and d: "isdigit a" "isdigit b"
    and v: "int_of_digits s = 10 * digit_val a + digit_val b"
    by (rule two_digits)
  from isdigit_code [OF d(1)] isdigit_code [OF d(2)] assms(3,4) v show ?thesis
    unfolding s by (simp add: ustr_def between_def) arith
qed

lemma directive_d_ascii:
  assumes "ascii_rows decimal"
    and "length s = 2" "list_all isdigit s" "1 \<le> int_of_digits s" "int_of_digits s \<le> 31"
  shows "directive_d decimal (ustr s)"
proof -
  from assms(2,3) obtain a b where s: "s = [a, b]" and d: "isdigit a" "isdigit b"
    and v: "int_of_digits s = 10 * digit_val a + digit_val b"
    by (rule two_digits)
  from ascii_digit_decimal [OF assms(1) d(2)] have "decimal (of_char b) \<noteq> None" by simp
  with isdigit_code [OF d(1)] isdigit_code [OF d(2)] assms(4,5) v show ?thesis
    unfolding s by (simp add: ustr_def between_def) arith
qed

lemma directive_H_ascii:
  assumes "ascii_rows decimal"
    and "length s = 2" "list_all isdigit s" "int_of_digits s \<le> 23"
  shows "directive_H decimal (ustr s)"
proof -
  from assms(2,3) obtain a b where s: "s = [a, b]" and d: "isdigit a" "isdigit b"
    and v: "int_of_digits s = 10 * digit_val a + digit_val b"
    by (rule two_digits)
  from ascii_digit_decimal [OF assms(1) d(2)] have "decimal (of_char b) \<noteq> None" by simp
  with isdigit_code [OF d(1)] isdigit_code [OF d(2)] assms(4) v show ?thesis
    unfolding s by (simp add: ustr_def between_def) arith
qed

lemma directive_M_ascii:
  assumes "ascii_rows decimal"
    and "length s = 2" "list_all isdigit s" "int_of_digits s \<le> 59"
  shows "directive_M decimal (ustr s)"
proof -
  from assms(2,3) obtain a b where s: "s = [a, b]" and d: "isdigit a" "isdigit b"
    and v: "int_of_digits s = 10 * digit_val a + digit_val b"
    by (rule two_digits)
  from ascii_digit_decimal [OF assms(1) d(2)] have "decimal (of_char b) \<noteq> None" by simp
  with isdigit_code [OF d(1)] isdigit_code [OF d(2)] assms(4) v show ?thesis
    unfolding s by (simp add: ustr_def between_def) arith
qed

lemma directive_S_ascii:
  assumes "ascii_rows decimal"
    and "length s = 2" "list_all isdigit s" "int_of_digits s \<le> 59"
  shows "directive_S decimal (ustr s)"
proof -
  from assms(2,3) obtain a b where s: "s = [a, b]" and d: "isdigit a" "isdigit b"
    and v: "int_of_digits s = 10 * digit_val a + digit_val b"
    by (rule two_digits)
  from ascii_digit_decimal [OF assms(1) d(2)] have "decimal (of_char b) \<noteq> None" by simp
  with isdigit_code [OF d(1)] isdigit_code [OF d(2)] assms(4) v show ?thesis
    unfolding s by (simp add: ustr_def between_def) arith
qed

lemma isdigit_slice: "list_all isdigit s \<Longrightarrow> list_all isdigit (take n (drop k s))"
  by (auto simp: list_all_iff dest!: in_set_takeD in_set_dropD)

text \<open>
  On groups of ASCII digits that spell a date of the calendar and a time of day,
  \<^verbatim>\<open>strptime\<close> returns that date and time.
\<close>

lemma u_strptime_valid:
  assumes table: "ascii_rows decimal"
    and date: "length date_str = 8" "list_all isdigit date_str"
    and time: "length time_str = 6" "list_all isdigit time_str"
    and valid: "date_time_valid date_str time_str"
  shows "u_strptime decimal (ustr date_str) (ustr time_str)
       = Some (int_of_digits (take 4 date_str), int_of_digits (take 2 (drop 4 date_str)),
               int_of_digits (take 2 (drop 6 date_str)), int_of_digits (take 2 time_str),
               int_of_digits (take 2 (drop 2 time_str)),
               int_of_digits (take 2 (drop 4 time_str)))"
proof -
  let ?Y = "take 4 date_str" and ?m = "take 2 (drop 4 date_str)"
    and ?d = "take 2 (drop 6 date_str)" and ?H = "take 2 time_str"
    and ?M = "take 2 (drop 2 time_str)" and ?S = "take 2 (drop 4 time_str)"
  have len: "length ?m = 2" "length ?d = 2" "length ?H = 2" "length ?M = 2" "length ?S = 2"
    using date(1) time(1) by simp_all
  have dig: "list_all isdigit ?Y" "list_all isdigit ?m" "list_all isdigit ?d"
    "list_all isdigit ?H" "list_all isdigit ?M" "list_all isdigit ?S"
    using date(2) time(2) isdigit_slice [of date_str _ 0] isdigit_slice [of time_str _ 0]
    by (simp_all add: isdigit_slice)
  from valid have v: "valid_date_time (int_of_digits ?Y) (int_of_digits ?m) (int_of_digits ?d)
      (int_of_digits ?H) (int_of_digits ?M) (int_of_digits ?S)"
    by (simp add: date_time_valid_def)
  then have r: "1 \<le> int_of_digits ?m" "int_of_digits ?m \<le> 12" "1 \<le> int_of_digits ?d"
    "int_of_digits ?H \<le> 23" "int_of_digits ?M \<le> 59" "int_of_digits ?S \<le> 59"
    by (simp_all add: valid_date_time_def)
  from v days_in_month_le [OF r(2), of "int_of_digits ?Y"] have d31: "int_of_digits ?d \<le> 31"
    by (simp add: valid_date_time_def)
  have dir: "directive_m (ustr ?m)" "directive_d decimal (ustr ?d)"
    "directive_H decimal (ustr ?H)" "directive_M decimal (ustr ?M)"
    "directive_S decimal (ustr ?S)"
    using table len dig r d31
    by (simp_all add: directive_m_ascii directive_d_ascii directive_H_ascii directive_M_ascii
        directive_S_ascii)
  from strptime_valid [OF date(2) v]
  have new: "datetime_new (int_of_digits ?Y) (int_of_digits ?m) (int_of_digits ?d)
      (int_of_digits ?H) (int_of_digits ?M) (int_of_digits ?S)
    = Some (int_of_digits ?Y, int_of_digits ?m, int_of_digits ?d, int_of_digits ?H,
            int_of_digits ?M, int_of_digits ?S)"
    by (simp add: strptime_def Let_def split: if_splits)
  show ?thesis
    unfolding u_strptime_def take_ustr drop_ustr
    using dir new by (simp add: u_int_ustr [OF table] dig)
qed

subsection \<open>Where the search stops\<close>

lemma u_re_search_hit: "u_timestamp_pattern decimal s = Some g \<Longrightarrow> u_re_search decimal s = Some g"
  by (cases s) simp_all

lemma u_re_search_skip:
  "(\<forall>k<length pre. u_timestamp_pattern decimal (drop k (pre @ s)) = None) \<Longrightarrow>
     u_re_search decimal (pre @ s) = u_re_search decimal s"
proof (induction pre)
  case Nil
  then show ?case by simp
next
  case (Cons c pre)
  from Cons.prems have 0: "u_timestamp_pattern decimal (c # pre @ s) = None" by force
  have "\<forall>k<length pre. u_timestamp_pattern decimal (drop k (pre @ s)) = None"
  proof (intro allI impI)
    fix k assume "k < length pre"
    then have "Suc k < length (c # pre)" by simp
    with Cons.prems have "u_timestamp_pattern decimal (drop (Suc k) ((c # pre) @ s)) = None"
      by blast
    then show "u_timestamp_pattern decimal (drop k (pre @ s)) = None" by simp
  qed
  with Cons.IH 0 show ?case by simp
qed

lemma u_timestamp_pattern_token:
  assumes table: "ascii_rows decimal"
    and ds: "ds \<noteq> []" "list_all (\<lambda>c. decimal c \<noteq> None) ds"
    and date: "length date_str = 8" "list_all isdigit date_str"
    and time: "length time_str = 6" "list_all isdigit time_str"
  shows "u_timestamp_pattern decimal
           (ustr ''RecM0'' @ ds @ ustr ''_'' @ ustr date_str @ ustr ''_'' @ ustr time_str @ post)
         = Some (ustr date_str, ustr time_str)"
proof -
  have us: "ustr ''_'' @ r = 95 # r" for r
    by (simp add: ustr_def)
  have 1: "u_re_literal (ustr ''RecM0'') (ustr ''RecM0'' @ r) = Some r" for r
    by (simp add: u_re_literal_def)
  have tw: "takeWhile (\<lambda>c. decimal c \<noteq> None) (ds @ 95 # r) = ds"
    and dw: "dropWhile (\<lambda>c. decimal c \<noteq> None) (ds @ 95 # r) = 95 # r" for r
    using ds(2) ascii_underscore [OF table]
    by (simp_all add: list_all_iff takeWhile_append2 dropWhile_append2)
  have 2: "u_re_digits_plus decimal (ds @ ustr ''_'' @ r) = Some (ustr ''_'' @ r)" for r
    using ds(1) tw dw by (simp add: u_re_digits_plus_def us)
  have 3: "u_re_literal (ustr ''_'') (ustr ''_'' @ r) = Some r" for r
    by (simp add: u_re_literal_def)
  have 4: "u_re_digits_exact decimal 8 (ustr date_str @ r) = Some (ustr date_str, r)" for r
    using date ascii_digits_decimal [OF table date(2)]
    by (simp add: u_re_digits_exact_def length_ustr)
  have 5: "u_re_digits_exact decimal 6 (ustr time_str @ r) = Some (ustr time_str, r)" for r
    using time ascii_digits_decimal [OF table time(2)]
    by (simp add: u_re_digits_exact_def length_ustr)
  show ?thesis
    unfolding u_timestamp_pattern_def by (simp only: 1 2 3 4 5 bind.bind_lunit prod.case)
qed

subsection \<open>The loop\<close>

lemma u_parse_step_eq:
  "u_parse_step bn decimal st p
     = (fst st @ (case u_parse_file bn decimal p of Some x \<Rightarrow> [x] | None \<Rightarrow> []),
        snd st @ [u_parse_event bn decimal p])"
  by (simp add: u_parse_step_def u_parse_file_def u_timestamp_of_def u_parse_event_def Let_def
      split: option.splits prod.splits)

lemma u_foldl_parse_step:
  "foldl (u_parse_step bn decimal) st fs
     = (fst st @ List.map_filter (u_parse_file bn decimal) fs,
        snd st @ map (u_parse_event bn decimal) fs)"
proof (induction fs arbitrary: st)
  case Nil
  then show ?case by (simp add: List.map_filter_simps)
next
  case (Cons p fs)
  have "foldl (u_parse_step bn decimal) st (p # fs)
      = foldl (u_parse_step bn decimal) (u_parse_step bn decimal st p) fs"
    by simp
  also have "\<dots> = (fst (u_parse_step bn decimal st p) @ List.map_filter (u_parse_file bn decimal) fs,
        snd (u_parse_step bn decimal st p) @ map (u_parse_event bn decimal) fs)"
    by (rule Cons.IH)
  also have "\<dots> = (fst st @ List.map_filter (u_parse_file bn decimal) (p # fs),
        snd st @ map (u_parse_event bn decimal) (p # fs))"
    by (simp add: u_parse_step_eq [of bn decimal st p] List.map_filter_simps
        split: option.splits)
  finally show ?case .
qed

lemma u_parse_loop_eq:
  "u_parse_loop bn decimal fs
     = (List.map_filter (u_parse_file bn decimal) fs, map (u_parse_event bn decimal) fs)"
  by (simp add: u_parse_loop_def u_foldl_parse_step)

lemma u_files:
  "fst (u_parse_and_sort_files bn decimal fs)
     = map (fst \<circ> snd) (sort_key fst (List.map_filter (u_parse_file bn decimal) fs))"
  by (cases "List.map_filter (u_parse_file bn decimal) fs = []")
    (simp_all add: u_parse_and_sort_files_def u_parse_loop_eq Let_def comp_def case_prod_unfold)

lemma u_log:
  "\<exists>rest. snd (u_parse_and_sort_files bn decimal fs) = map (u_parse_event bn decimal) fs @ rest"
  by (cases "List.map_filter (u_parse_file bn decimal) fs = []")
    (simp_all add: u_parse_and_sort_files_def u_parse_loop_eq Let_def)

lemma u_paths_parsed:
  "map (fst \<circ> snd) (List.map_filter (u_parse_file bn decimal) fs)
     = filter (\<lambda>p. u_timestamp_of bn decimal p \<noteq> None) fs"
  by (induction fs) (auto simp: List.map_filter_simps u_parse_file_def split: option.splits)

lemma u_set_files:
  "set (fst (u_parse_and_sort_files bn decimal fs))
     = {p \<in> set fs. u_timestamp_of bn decimal p \<noteq> None}"
proof -
  have "set (fst (u_parse_and_sort_files bn decimal fs))
      = set (map (fst \<circ> snd) (List.map_filter (u_parse_file bn decimal) fs))"
    unfolding u_files by (simp only: set_map set_sort)
  then show ?thesis unfolding u_paths_parsed by simp
qed

lemma u_event_logged:
  "p \<in> set fs \<Longrightarrow> u_parse_event bn decimal p \<in> set (snd (u_parse_and_sort_files bn decimal fs))"
  using u_log [of bn decimal fs] by auto

subsection \<open>The parser on one filename\<close>

text \<open>
  Claim C1, as amended. Let the match the parser finds in the filename of a path, the
  leftmost match of the pattern, have its date and its time written in the ASCII digits
  \<^verbatim>\<open>0\<close> to \<^verbatim>\<open>9\<close>, and let these be a date of the calendar (years from 0001) and a time
  of day. Then the parser gives the path the timestamp written there, keeps the path in its
  output and logs it as parsed. The name may hold any characters elsewhere, and the digits
  after \<^verbatim>\<open>RecM0\<close> may be of any script.
\<close>

theorem ascii_token_timestamp:
  assumes table: "ascii_rows decimal"
    and name: "bn p = pre @ ustr ''RecM0'' @ ds @ ustr ''_'' @ ustr date_str @ ustr ''_''
                 @ ustr time_str @ post"
    and ds: "ds \<noteq> []" "list_all (\<lambda>c. decimal c \<noteq> None) ds"
    and date: "length date_str = 8" "list_all isdigit date_str"
    and time: "length time_str = 6" "list_all isdigit time_str"
    and leftmost: "\<forall>k<length pre. u_timestamp_pattern decimal (drop k (bn p)) = None"
    and fields: "year = int_of_digits (take 4 date_str)"
      "month = int_of_digits (take 2 (drop 4 date_str))"
      "day = int_of_digits (take 2 (drop 6 date_str))"
      "hour = int_of_digits (take 2 time_str)"
      "minute = int_of_digits (take 2 (drop 2 time_str))"
      "second = int_of_digits (take 2 (drop 4 time_str))"
    and valid: "valid_date_time year month day hour minute second"
    and mem: "p \<in> set fs"
  shows "u_timestamp_of bn decimal p = Some (year, month, day, hour, minute, second)
       \<and> p \<in> set (fst (u_parse_and_sort_files bn decimal fs))
       \<and> ULogParsed (bn p) (year, month, day, hour, minute, second)
           \<in> set (snd (u_parse_and_sort_files bn decimal fs))"
proof -
  let ?tok = "ustr ''RecM0'' @ ds @ ustr ''_'' @ ustr date_str @ ustr ''_'' @ ustr time_str @ post"
  have "u_re_search decimal (pre @ ?tok) = u_re_search decimal ?tok"
    using leftmost unfolding name by (rule u_re_search_skip)
  also have "\<dots> = Some (ustr date_str, ustr time_str)"
    by (rule u_re_search_hit) (rule u_timestamp_pattern_token [OF table ds date time])
  finally have rs: "u_re_search decimal (bn p) = Some (ustr date_str, ustr time_str)"
    by (simp only: name)
  from valid have "date_time_valid date_str time_str"
    by (simp add: date_time_valid_def fields)
  from u_strptime_valid [OF table date time this]
  have sp: "u_strptime decimal (ustr date_str) (ustr time_str)
      = Some (year, month, day, hour, minute, second)"
    by (simp only: fields)
  from rs sp have ts: "u_timestamp_of bn decimal p = Some (year, month, day, hour, minute, second)"
    by (simp add: u_timestamp_of_def)
  from rs sp have ev: "u_parse_event bn decimal p
      = ULogParsed (bn p) (year, month, day, hour, minute, second)"
    by (simp add: u_parse_event_def)
  have 2: "p \<in> set (fst (u_parse_and_sort_files bn decimal fs))"
    using ts mem by (simp add: u_set_files)
  have 3: "ULogParsed (bn p) (year, month, day, hour, minute, second)
             \<in> set (snd (u_parse_and_sort_files bn decimal fs))"
    using u_event_logged [OF mem, of bn decimal] ev by simp
  from ts 2 3 show ?thesis by blast
qed

text \<open>
  The theorem at \<^verbatim>\<open>RecM01_20240315_143022.mp4\<close>, whose timestamp is 2024-03-15
  14:30:22, and at the same token after two Chinese characters and an underscore, with
  camera number 7 written as an Arabic-Indic digit.
\<close>

theorem ascii_token_timestamp_witness:
  "ascii_rows two_scripts
   \<and> u_timestamp_of (\<lambda>p. p) two_scripts (ustr ''RecM01_20240315_143022.mp4'')
       = Some (2024, 3, 15, 14, 30, 22)
   \<and> ustr ''RecM01_20240315_143022.mp4''
       \<in> set (fst (u_parse_and_sort_files (\<lambda>p. p) two_scripts
                     [ustr ''RecM01_20240315_143022.mp4'']))
   \<and> u_timestamp_of (\<lambda>p. p) two_scripts
        ([35270, 39057, 95] @ ustr ''RecM0'' @ [1639] @ ustr ''_20240315_143022.mp4'')
       = Some (2024, 3, 15, 14, 30, 22)"
proof -
  let ?p = "ustr ''RecM01_20240315_143022.mp4''"
  let ?q = "[35270, 39057, 95] @ ustr ''RecM0'' @ [1639] @ ustr ''_20240315_143022.mp4''"
  have table: "ascii_rows two_scripts"
    by (simp add: ascii_rows_def two_scripts_def)
  have name_p: "?p = [] @ ustr ''RecM0'' @ ustr ''1'' @ ustr ''_'' @ ustr ''20240315'' @ ustr ''_''
      @ ustr ''143022'' @ ustr ''.mp4''"
    by (simp add: ustr_def)
  have name_q: "?q = [35270, 39057, 95] @ ustr ''RecM0'' @ [1639] @ ustr ''_''
      @ ustr ''20240315'' @ ustr ''_'' @ ustr ''143022'' @ ustr ''.mp4''"
    by (simp add: ustr_def)
  have ds: "list_all (\<lambda>c. two_scripts c \<noteq> None) (ustr ''1'')"
    "list_all (\<lambda>c. two_scripts c \<noteq> None) [1639]"
    by (simp_all add: two_scripts_def ustr_def)
  have digits: "list_all isdigit ''20240315''" "list_all isdigit ''143022''"
    by (simp_all add: isdigit_def)
  have left_p: "\<forall>k<length ([] :: ustring). u_timestamp_pattern two_scripts (drop k ?p) = None"
    by simp
  have "\<forall>k<3. u_timestamp_pattern two_scripts (drop k ?q) = None"
  proof (intro allI impI)
    fix k :: nat
    assume "k < 3"
    then consider "k = 0" | "k = 1" | "k = 2" by linarith
    then show "u_timestamp_pattern two_scripts (drop k ?q) = None"
      by cases (simp_all add: u_timestamp_pattern_def u_re_literal_def ustr_def)
  qed
  then have left_q: "\<forall>k<length [35270, 39057, 95 :: nat].
      u_timestamp_pattern two_scripts (drop k ?q) = None"
    by simp
  have f: "int_of_digits (take 4 ''20240315'') = 2024"
    "int_of_digits (take 2 (drop 4 ''20240315'')) = 3"
    "int_of_digits (take 2 (drop 6 ''20240315'')) = 15"
    "int_of_digits (take 2 ''143022'') = 14"
    "int_of_digits (take 2 (drop 2 ''143022'')) = 30"
    "int_of_digits (take 2 (drop 4 ''143022'')) = 22"
    by (simp_all add: int_of_digits_def digit_val_def)
  have valid: "valid_date_time 2024 3 15 14 30 22"
    by (simp add: valid_date_time_def days_in_month_def)
  have p: "u_timestamp_of (\<lambda>p. p) two_scripts ?p = Some (2024, 3, 15, 14, 30, 22)
       \<and> ?p \<in> set (fst (u_parse_and_sort_files (\<lambda>p. p) two_scripts [?p]))
       \<and> ULogParsed ?p (2024, 3, 15, 14, 30, 22)
           \<in> set (snd (u_parse_and_sort_files (\<lambda>p. p) two_scripts [?p]))"
    by (rule ascii_token_timestamp
          [where bn = "\<lambda>p. p" and p = ?p and pre = "[]" and ds = "ustr ''1''"
             and date_str = "''20240315''" and time_str = "''143022''" and post = "ustr ''.mp4''",
           OF table name_p _ ds(1) _ digits(1) _ digits(2) left_p f [symmetric] valid])
      (simp_all add: ustr_def)
  have q: "u_timestamp_of (\<lambda>p. p) two_scripts ?q = Some (2024, 3, 15, 14, 30, 22)
       \<and> ?q \<in> set (fst (u_parse_and_sort_files (\<lambda>p. p) two_scripts [?q]))
       \<and> ULogParsed ?q (2024, 3, 15, 14, 30, 22)
           \<in> set (snd (u_parse_and_sort_files (\<lambda>p. p) two_scripts [?q]))"
    by (rule ascii_token_timestamp
          [where bn = "\<lambda>p. p" and p = ?q and pre = "[35270, 39057, 95]" and ds = "[1639]"
             and date_str = "''20240315''" and time_str = "''143022''" and post = "ustr ''.mp4''",
           OF table name_q _ ds(2) _ digits(1) _ digits(2) left_q f [symmetric] valid])
      simp_all
  from table p q show ?thesis by blast
qed

text \<open>
  The claim as stated fails on a token in digits of another script. In
  \<^verbatim>\<open>RecM01_<20240315>_<143022>.mp4\<close>, the date and the time written in Arabic-Indic
  digits, the pattern matches, its groups spell 2024-03-15 14:30:22, and
  \<^verbatim>\<open>strptime\<close> raises, since \<^verbatim>\<open>%m\<close> reads ASCII digits only: the file is logged
  as one whose timestamp could not be parsed and left out.
\<close>

theorem arabic_indic_token_rejected_counterexample:
  "u_re_search two_scripts
     (ustr ''RecM01_'' @ arabic_indic ''20240315'' @ ustr ''_'' @ arabic_indic ''143022''
        @ ustr ''.mp4'')
     = Some (arabic_indic ''20240315'', arabic_indic ''143022'')
   \<and> map two_scripts (arabic_indic ''20240315'') = map Some [2, 0, 2, 4, 0, 3, 1, 5]
   \<and> map two_scripts (arabic_indic ''143022'') = map Some [1, 4, 3, 0, 2, 2]
   \<and> valid_date_time 2024 3 15 14 30 22
   \<and> u_parse_and_sort_files (\<lambda>p. p) two_scripts
        [ustr ''RecM01_'' @ arabic_indic ''20240315'' @ ustr ''_'' @ arabic_indic ''143022''
           @ ustr ''.mp4'']
       = ([], [ULogCouldNotParse
                 (ustr ''RecM01_'' @ arabic_indic ''20240315'' @ ustr ''_''
                    @ arabic_indic ''143022'' @ ustr ''.mp4''),
               ULogNoValidTimestamp])"
proof -
  let ?n = "ustr ''RecM01_'' @ arabic_indic ''20240315'' @ ustr ''_'' @ arabic_indic ''143022''
              @ ustr ''.mp4''"
  have rs: "u_re_search two_scripts ?n = Some (arabic_indic ''20240315'', arabic_indic ''143022'')"
    by (simp add: ustr_def arabic_indic_def two_scripts_def u_timestamp_pattern_def
        u_re_literal_def u_re_digits_plus_def u_re_digits_exact_def)
  have sp: "u_strptime two_scripts (arabic_indic ''20240315'') (arabic_indic ''143022'') = None"
    by (simp add: u_strptime_def arabic_indic_def between_def)
  have d: "map two_scripts (arabic_indic ''20240315'') = map Some [2, 0, 2, 4, 0, 3, 1, 5]"
    "map two_scripts (arabic_indic ''143022'') = map Some [1, 4, 3, 0, 2, 2]"
    by (simp_all add: arabic_indic_def two_scripts_def)
  have valid: "valid_date_time 2024 3 15 14 30 22"
    by (simp add: valid_date_time_def days_in_month_def)
  have "u_parse_and_sort_files (\<lambda>p. p) two_scripts [?n]
      = ([], [ULogCouldNotParse ?n, ULogNoValidTimestamp])"
    by (simp add: u_parse_and_sort_files_def u_parse_loop_def u_parse_step_def rs sp)
  with rs d valid show ?thesis by blast
qed

text \<open>
  The same holds with the whole table of Unicode, which has these rows: whatever the
  other rows are, \<^verbatim>\<open>%m\<close> does not read the month.
\<close>

lemma arabic_indic_token_rejected:
  assumes "ascii_rows decimal"
    and "\<forall>c. 1632 \<le> c \<and> c \<le> 1641 \<longrightarrow> decimal c = Some (c - 1632)"
  shows "u_timestamp_of (\<lambda>p. p) decimal
           (ustr ''RecM01_'' @ arabic_indic ''20240315'' @ ustr ''_'' @ arabic_indic ''143022''
              @ ustr ''.mp4'') = None"
proof -
  let ?n = "ustr ''RecM01_'' @ arabic_indic ''20240315'' @ ustr ''_'' @ arabic_indic ''143022''
              @ ustr ''.mp4''"
  have a: "decimal c = (if 48 \<le> c \<and> c \<le> 57 then Some (c - 48) else None)" if "c < 128" for c
    using assms(1) that by (simp add: ascii_rows_def)
  have b: "decimal c = Some (c - 1632)" if "1632 \<le> c" "c \<le> 1641" for c
    using assms(2) that by simp
  have rs: "u_re_search decimal ?n = Some (arabic_indic ''20240315'', arabic_indic ''143022'')"
    by (simp add: ustr_def arabic_indic_def a b u_timestamp_pattern_def
        u_re_literal_def u_re_digits_plus_def u_re_digits_exact_def)
  have sp: "u_strptime decimal (arabic_indic ''20240315'') (arabic_indic ''143022'') = None"
    by (simp add: u_strptime_def arabic_indic_def between_def)
  from rs sp show ?thesis by (simp add: u_timestamp_of_def)
qed

subsection \<open>The two parsers on names of Latin-1 characters\<close>

text \<open>
  Below U+0100 Unicode has no decimal digits but the ASCII ones. With such a table the
  parser on code points does on a name of Latin-1 characters what the parser on
  \<^typ>\<open>string\<close> does.
\<close>

lemma latin1_ascii_rows: "latin1_rows decimal \<Longrightarrow> ascii_rows decimal"
  by (simp add: latin1_rows_def ascii_rows_def)

lemma isdigit_iff: "isdigit c = (48 \<le> (of_char c :: nat) \<and> (of_char c :: nat) \<le> 57)"
proof
  assume "isdigit c"
  then show "48 \<le> (of_char c :: nat) \<and> (of_char c :: nat) \<le> 57"
    by (simp add: isdigit_code)
next
  assume r: "48 \<le> (of_char c :: nat) \<and> (of_char c :: nat) \<le> 57"
  then have "(of_char c :: nat) = of_char CHR ''0'' \<or> (of_char c :: nat) = of_char CHR ''1''
      \<or> (of_char c :: nat) = of_char CHR ''2'' \<or> (of_char c :: nat) = of_char CHR ''3''
      \<or> (of_char c :: nat) = of_char CHR ''4'' \<or> (of_char c :: nat) = of_char CHR ''5''
      \<or> (of_char c :: nat) = of_char CHR ''6'' \<or> (of_char c :: nat) = of_char CHR ''7''
      \<or> (of_char c :: nat) = of_char CHR ''8'' \<or> (of_char c :: nat) = of_char CHR ''9''"
    by simp arith
  then have "c = CHR ''0'' \<or> c = CHR ''1'' \<or> c = CHR ''2'' \<or> c = CHR ''3'' \<or> c = CHR ''4''
      \<or> c = CHR ''5'' \<or> c = CHR ''6'' \<or> c = CHR ''7'' \<or> c = CHR ''8'' \<or> c = CHR ''9''"
    by (simp only: of_char_eq_iff)
  then show "isdigit c"
    by (simp add: isdigit_def)
qed

lemma latin1_decimal:
  assumes "latin1_rows decimal"
  shows "(decimal (of_char c) \<noteq> None) = isdigit c"
proof -
  have "(of_char c :: nat) < 256" by simp
  with assms show ?thesis by (simp add: latin1_rows_def isdigit_iff)
qed

lemma ustr_eq_iff: "(ustr a = ustr b) = (a = b)"
  by (simp add: ustr_def inj_map_eq_map [OF inj_of_char])

lemma u_re_literal_ustr:
  "u_re_literal (ustr lit) (ustr s) = map_option ustr (re_literal lit s)"
  by (simp add: u_re_literal_def re_literal_def startswith_def length_ustr take_ustr drop_ustr
      ustr_eq_iff)

lemma u_re_digits_plus_ustr:
  assumes "latin1_rows decimal"
  shows "u_re_digits_plus decimal (ustr s) = map_option ustr (re_digits_plus s)"
proof -
  have p: "(\<lambda>c. decimal c \<noteq> None) \<circ> of_char = isdigit"
    by (rule ext) (simp add: latin1_decimal [OF assms] del: not_None_eq)
  show ?thesis
    by (simp add: u_re_digits_plus_def re_digits_plus_def ustr_def takeWhile_map dropWhile_map p
        del: not_None_eq)
qed

lemma u_re_digits_exact_ustr:
  assumes "latin1_rows decimal"
  shows "u_re_digits_exact decimal n (ustr s)
       = map_option (\<lambda>(g, r). (ustr g, ustr r)) (re_digits_exact n s)"
proof -
  have "list_all (\<lambda>c. decimal c \<noteq> None) (ustr x) = list_all isdigit x" for x
    by (simp add: ustr_def list_all_iff latin1_decimal [OF assms] del: not_None_eq)
  then show ?thesis
    by (simp add: u_re_digits_exact_def re_digits_exact_def take_ustr drop_ustr length_ustr)
qed

lemma u_timestamp_pattern_ustr:
  assumes "latin1_rows decimal"
  shows "u_timestamp_pattern decimal (ustr s)
       = map_option (\<lambda>(d, t). (ustr d, ustr t)) (timestamp_pattern s)"
  by (auto simp: u_timestamp_pattern_def timestamp_pattern_def u_re_literal_ustr
      u_re_digits_plus_ustr [OF assms] u_re_digits_exact_ustr [OF assms]
      split: bind_splits option.splits)

lemma u_re_search_ustr:
  assumes "latin1_rows decimal"
  shows "u_re_search decimal (ustr s)
       = map_option (\<lambda>(d, t). (ustr d, ustr t)) (re_search s)"
proof (induction s)
  case Nil
  from u_timestamp_pattern_ustr [OF assms, of "[]"] show ?case by (simp add: ustr_def)
next
  case (Cons c s)
  from u_timestamp_pattern_ustr [OF assms, of "c # s"] Cons show ?case
    by (simp add: ustr_def split: option.splits)
qed

lemma directive_m_iff:
  assumes "length s = 2" "list_all isdigit s"
  shows "directive_m (ustr s) = (1 \<le> int_of_digits s \<and> int_of_digits s \<le> 12)"
proof -
  from assms(1,2) obtain a b where s: "s = [a, b]" and d: "isdigit a" "isdigit b"
    and v: "int_of_digits s = 10 * digit_val a + digit_val b"
    by (rule two_digits)
  from isdigit_code [OF d(1)] isdigit_code [OF d(2)] v show ?thesis
    unfolding s by (simp add: ustr_def between_def) arith
qed

lemma directive_d_iff:
  assumes "ascii_rows decimal"
    and "length s = 2" "list_all isdigit s"
  shows "directive_d decimal (ustr s) = (1 \<le> int_of_digits s \<and> int_of_digits s \<le> 31)"
proof -
  from assms(2,3) obtain a b where s: "s = [a, b]" and d: "isdigit a" "isdigit b"
    and v: "int_of_digits s = 10 * digit_val a + digit_val b"
    by (rule two_digits)
  from ascii_digit_decimal [OF assms(1) d(2)] have "decimal (of_char b) \<noteq> None" by simp
  with isdigit_code [OF d(1)] isdigit_code [OF d(2)] v show ?thesis
    unfolding s by (simp add: ustr_def between_def) arith
qed

lemma directive_H_iff:
  assumes "ascii_rows decimal"
    and "length s = 2" "list_all isdigit s"
  shows "directive_H decimal (ustr s) = (int_of_digits s \<le> 23)"
proof -
  from assms(2,3) obtain a b where s: "s = [a, b]" and d: "isdigit a" "isdigit b"
    and v: "int_of_digits s = 10 * digit_val a + digit_val b"
    by (rule two_digits)
  from ascii_digit_decimal [OF assms(1) d(2)] have "decimal (of_char b) \<noteq> None" by simp
  with isdigit_code [OF d(1)] isdigit_code [OF d(2)] v show ?thesis
    unfolding s by (simp add: ustr_def between_def) arith
qed

lemma directive_M_iff:
  assumes "ascii_rows decimal"
    and "length s = 2" "list_all isdigit s"
  shows "directive_M decimal (ustr s) = (int_of_digits s \<le> 59)"
proof -
  from assms(2,3) obtain a b where s: "s = [a, b]" and d: "isdigit a" "isdigit b"
    and v: "int_of_digits s = 10 * digit_val a + digit_val b"
    by (rule two_digits)
  from ascii_digit_decimal [OF assms(1) d(2)] have "decimal (of_char b) \<noteq> None" by simp
  with isdigit_code [OF d(1)] isdigit_code [OF d(2)] v show ?thesis
    unfolding s by (simp add: ustr_def between_def) arith
qed

lemma directive_S_iff:
  assumes "ascii_rows decimal"
    and "length s = 2" "list_all isdigit s"
  shows "directive_S decimal (ustr s) = (int_of_digits s \<le> 61)"
proof -
  from assms(2,3) obtain a b where s: "s = [a, b]" and d: "isdigit a" "isdigit b"
    and v: "int_of_digits s = 10 * digit_val a + digit_val b"
    by (rule two_digits)
  from ascii_digit_decimal [OF assms(1) d(2)] have "decimal (of_char b) \<noteq> None" by simp
  with isdigit_code [OF d(1)] isdigit_code [OF d(2)] v show ?thesis
    unfolding s by (simp add: ustr_def between_def) arith
qed

lemma u_strptime_ustr:
  assumes table: "ascii_rows decimal"
    and date: "length date_str = 8" "list_all isdigit date_str"
    and time: "length time_str = 6" "list_all isdigit time_str"
  shows "u_strptime decimal (ustr date_str) (ustr time_str) = strptime date_str time_str"
proof -
  let ?Y = "take 4 date_str" and ?m = "take 2 (drop 4 date_str)"
    and ?d = "take 2 (drop 6 date_str)" and ?H = "take 2 time_str"
    and ?M = "take 2 (drop 2 time_str)" and ?S = "take 2 (drop 4 time_str)"
  have len: "length ?m = 2" "length ?d = 2" "length ?H = 2" "length ?M = 2" "length ?S = 2"
    using date(1) time(1) by simp_all
  have dig: "list_all isdigit ?Y" "list_all isdigit ?m" "list_all isdigit ?d"
    "list_all isdigit ?H" "list_all isdigit ?M" "list_all isdigit ?S"
    using date(2) time(2) isdigit_slice [of date_str _ 0] isdigit_slice [of time_str _ 0]
    by (simp_all add: isdigit_slice)
  note dir = directive_m_iff [OF len(1) dig(2)] directive_d_iff [OF table len(2) dig(3)]
    directive_H_iff [OF table len(3) dig(4)] directive_M_iff [OF table len(4) dig(5)]
    directive_S_iff [OF table len(5) dig(6)]
  note ints = u_int_ustr [OF table dig(1)] u_int_ustr [OF table dig(2)]
    u_int_ustr [OF table dig(3)] u_int_ustr [OF table dig(4)] u_int_ustr [OF table dig(5)]
    u_int_ustr [OF table dig(6)]
  show ?thesis
    unfolding u_strptime_def strptime_def take_ustr drop_ustr Let_def dir ints
    by (simp only: conj_assoc)
qed

text \<open>
  The timestamp of a path is the same in both models, for every basename function on
  code points that does what the one on \<^typ>\<open>string\<close> does.
\<close>

lemma u_timestamp_of_latin1:
  assumes table: "latin1_rows decimal" and bn: "ubn (ustr p) = ustr (bn p)"
  shows "u_timestamp_of ubn decimal (ustr p) = timestamp_of bn p"
proof (cases "re_search (bn p)")
  case None
  with u_re_search_ustr [OF table, of "bn p"] show ?thesis
    by (simp add: u_timestamp_of_def timestamp_of_def bn)
next
  case (Some g)
  obtain d t where g: "g = (d, t)" by (cases g)
  from re_search_groups [of "bn p" d t] Some g
  have "length d = 8" "list_all isdigit d" "length t = 6" "list_all isdigit t"
    by simp_all
  from u_strptime_ustr [OF latin1_ascii_rows [OF table] this]
    u_re_search_ustr [OF table, of "bn p"] Some g
  show ?thesis
    by (simp add: u_timestamp_of_def timestamp_of_def bn)
qed

section \<open>Properties of the merge executor and the job\<close>

subsection \<open>The playlist\<close>

lemma write_loop_lines:
  "write_loop e n i vs = (None, lines, lg) \<Longrightarrow> lines = map playlist_line vs"
proof (induction vs arbitrary: i lines lg)
  case Nil
  then show ?case by simp
next
  case (Cons v vs)
  then show ?case
    by (auto split: option.splits prod.splits)
qed

lemma write_playlist_lines:
  "write_playlist e vs = (None, lines, lg) \<Longrightarrow> lines = map playlist_line vs"
  by (auto simp: write_playlist_def split: prod.splits option.splits dest: write_loop_lines)

subsection \<open>The result of the executor\<close>












subsection \<open>When the executor reports success\<close>

lemma run_ffmpeg_result:
  "run_ffmpeg e cmd = Some (ok, lg) \<Longrightarrow>
     ok = (\<exists>out err secs. spawn e cmd = Exits 0 out err secs)"
  by (cases "spawn e cmd") (auto simp: run_ffmpeg_def split: if_splits)

lemma run_ffmpeg_blocks: "(run_ffmpeg e cmd = None) = (spawn e cmd = NeverExits)"
  by (cases "spawn e cmd") (auto simp: run_ffmpeg_def)

text \<open>
  The executor returns \<open>True\<close> exactly when it started FFmpeg and the process exited
  with code 0, however long the process ran.
\<close>

lemma success_iff_exit_zero:
  "merge_videos_with_ffmpeg e vf out = Some r \<Longrightarrow>
     success r = (\<exists>cmd so se secs. command r = Some cmd \<and> spawn e cmd = Exits 0 so se secs)"
  by (auto simp: merge_videos_with_ffmpeg_def Let_def
      split: ffmpeg_check.splits sum.splits prod.splits option.splits
      dest: run_ffmpeg_result)

text \<open>A return code other than 0: \<open>False\<close>, and both output streams are logged.\<close>

lemma nonzero_exit_fails:
  assumes "merge_videos_with_ffmpeg e vf out = Some r" and "command r = Some cmd"
    and "spawn e cmd = Exits rc so se secs" and "rc \<noteq> 0"
  shows "\<not> success r \<and> LogProcessFailed rc so se \<in> set (merge_log r)"
  using assms
  by (auto simp: merge_videos_with_ffmpeg_def Let_def run_ffmpeg_def
      split: ffmpeg_check.splits sum.splits prod.splits option.splits)

text \<open>A process that cannot be started: \<open>False\<close>, and the exception is logged.\<close>

lemma launch_error_fails:
  assumes "merge_videos_with_ffmpeg e vf out = Some r" and "command r = Some cmd"
    and "spawn e cmd = CannotStart x"
  shows "\<not> success r
       \<and> (if exn_type x = ''TimeoutExpired'' then LogTimedOut else LogRunError (exn_msg x))
           \<in> set (merge_log r)"
  using assms
  by (auto simp: merge_videos_with_ffmpeg_def Let_def run_ffmpeg_def
      split: ffmpeg_check.splits sum.splits prod.splits option.splits)

text \<open>
  The executor returns on every path but one: FFmpeg was started and never exits.
\<close>

lemma executor_blocks_iff:
  "(merge_videos_with_ffmpeg e vf out = None)
     = (\<exists>status path tmp.
          check_ffmpeg_binary e = Available status path \<and> mktemp e = Inr tmp
          \<and> fst (write_playlist e vf) = None
          \<and> spawn e (ffmpeg_command path tmp out) = NeverExits)"
  by (auto simp: merge_videos_with_ffmpeg_def Let_def run_ffmpeg_blocks
      split: ffmpeg_check.splits sum.splits prod.splits option.splits
      dest: run_ffmpeg_blocks [THEN iffD2])

text \<open>
  Claim C4 fails on the code in its clause on the timeout. \<^verbatim>\<open>subprocess.run\<close> is
  called with no \<^verbatim>\<open>timeout\<close>, so the handler that logs "FFmpeg process timed out (over
  5 minutes)" is never entered: an FFmpeg that runs for six minutes and exits with code 0
  makes the executor return \<open>True\<close> without that message, and with an FFmpeg that never
  exits the executor does not return.
\<close>

theorem long_run_is_not_timed_out:
  "map_option success
     (merge_videos_with_ffmpeg
        (example_env\<lparr>spawn := (\<lambda>cmd. if cmd = [''ffmpeg'', ''-version'']
                                      then Exits 0 ''ffmpeg version 6.0'' [] 1
                                      else Exits 0 [] [] 360)\<rparr>)
        [''/in/RecM01_20240101_090000.mp4''] ''/out/Panorama.mp4'') = Some True
   \<and> map_option (\<lambda>r. LogTimedOut \<in> set (merge_log r))
       (merge_videos_with_ffmpeg
          (example_env\<lparr>spawn := (\<lambda>cmd. if cmd = [''ffmpeg'', ''-version'']
                                        then Exits 0 ''ffmpeg version 6.0'' [] 1
                                        else Exits 0 [] [] 360)\<rparr>)
          [''/in/RecM01_20240101_090000.mp4''] ''/out/Panorama.mp4'') = Some False
   \<and> merge_videos_with_ffmpeg
        (example_env\<lparr>spawn := (\<lambda>cmd. if cmd = [''ffmpeg'', ''-version'']
                                      then Exits 0 ''ffmpeg version 6.0'' [] 1
                                      else NeverExits)\<rparr>)
        [''/in/RecM01_20240101_090000.mp4''] ''/out/Panorama.mp4'' = None"
  by code_simp

subsection \<open>The job\<close>

lemma command_playlist_lines:
  "merge_videos_with_ffmpeg e vf out = Some m \<Longrightarrow> command m = Some cmd \<Longrightarrow>
     playlist_lines m = map playlist_line vf"
  by (auto simp: merge_videos_with_ffmpeg_def Let_def
      split: ffmpeg_check.splits sum.splits prod.splits option.splits
      dest: write_playlist_lines)

lemma merge_found_empty:
  "\<exists>r. merge_found e [] lg = Some r \<and> executor_call r = None \<and> executor_result r = None"
  by (simp add: merge_found_def job_stopped_def)

lemma merge_found_call:
  assumes "merge_found e vf lg = Some r" and "executor_call r = Some (vf', out)"
  shows "vf' = vf \<and> vf \<noteq> []
       \<and> (\<exists>m. executor_result r = Some m \<and> merge_videos_with_ffmpeg e vf out = Some m)"
  using assms
  by (auto simp: merge_found_def job_stopped_def Let_def split: if_splits option.splits)

text \<open>
  Claim C6. When discovery and parsing leave no segment, the job returns without calling
  the executor. Whenever the job calls the executor, it passes the segments found, at
  least one; and if the executor then starts FFmpeg, the playlist holds one line for each
  of them.
\<close>

theorem no_merge_without_segments:
  "(fst (find_video_files e (input_folder e)) = [] \<longrightarrow>
      (\<exists>r. merge_videos e = Some r \<and> executor_call r = None \<and> executor_result r = None))
   \<and> (\<forall>r vf out. merge_videos e = Some r \<and> executor_call r = Some (vf, out) \<longrightarrow>
         vf = fst (find_video_files e (input_folder e)) \<and> vf \<noteq> []
         \<and> (\<exists>m. executor_result r = Some m
                \<and> (command m \<noteq> None \<longrightarrow>
                      playlist_lines m = map playlist_line vf \<and> playlist_lines m \<noteq> [])))"
proof -
  obtain found lg where fv: "find_video_files e (input_folder e) = (found, lg)"
    by (cases "find_video_files e (input_folder e)")
  have 1: "\<exists>r. merge_videos e = Some r \<and> executor_call r = None \<and> executor_result r = None"
    if "found = []"
    using that merge_found_empty [of e lg] by (simp add: merge_videos_def fv job_stopped_def)
  have 2: "vf = found \<and> vf \<noteq> []
         \<and> (\<exists>m. executor_result r = Some m
                \<and> (command m \<noteq> None \<longrightarrow>
                      playlist_lines m = map playlist_line vf \<and> playlist_lines m \<noteq> []))"
    if r: "merge_videos e = Some r" and c: "executor_call r = Some (vf, out)" for r vf out
  proof -
    from r c have "merge_found e found lg = Some r"
      by (auto simp: merge_videos_def fv job_stopped_def split: if_splits)
    from merge_found_call [OF this c] obtain m
      where vf: "vf = found" "found \<noteq> []" and m: "executor_result r = Some m"
        "merge_videos_with_ffmpeg e found out = Some m"
      by blast
    from command_playlist_lines [OF m(2)] vf
    have "command m \<noteq> None \<longrightarrow> playlist_lines m = map playlist_line vf \<and> playlist_lines m \<noteq> []"
      by auto
    with vf m show ?thesis by blast
  qed
  from 1 2 show ?thesis unfolding fv by (simp only: fst_conv) blast
qed

text \<open>
  The theorem at a folder where no file matches (the job stops, with the error box) and at
  the folder of the end-to-end scenario (the executor is called with the three segments,
  oldest first).
\<close>

theorem no_merge_without_segments_witness:
  "fst (find_video_files (example_env\<lparr>glob := (\<lambda>pattern. [])\<rparr>)
          (input_folder (example_env\<lparr>glob := (\<lambda>pattern. [])\<rparr>))) = []
   \<and> (\<exists>r. merge_videos (example_env\<lparr>glob := (\<lambda>pattern. [])\<rparr>) = Some r
          \<and> executor_call r = None \<and> executor_result r = None)
   \<and> (\<exists>r m. merge_videos example_env = Some r
          \<and> executor_call r
              = Some ([''/in/RecM03_20240101_083000.mov'', ''/in/RecM01_20240101_090000.mp4'',
                       ''/in/RecM02_20240101_091500.mp4''], ''/out/Panorama.mp4'')
          \<and> executor_result r = Some m \<and> length (playlist_lines m) = 3)"
proof -
  let ?e0 = "example_env\<lparr>glob := (\<lambda>pattern. [])\<rparr>"
  let ?vf = "[''/in/RecM03_20240101_083000.mov'', ''/in/RecM01_20240101_090000.mp4'',
              ''/in/RecM02_20240101_091500.mp4'']"
  have h0: "fst (find_video_files ?e0 (input_folder ?e0)) = []"
    by code_simp
  with no_merge_without_segments [of ?e0]
  have a: "\<exists>r. merge_videos ?e0 = Some r \<and> executor_call r = None \<and> executor_result r = None"
    by blast
  have c: "map_option executor_call (merge_videos example_env) = Some (Some (?vf, ''/out/Panorama.mp4''))"
    by code_simp
  have d: "map_option (\<lambda>r. map_option command (executor_result r)) (merge_videos example_env)
      = Some (Some (Some [''ffmpeg'', ''-f'', ''concat'', ''-safe'', ''0'', ''-i'',
            ''/tmp/tmpk3_concat.txt'', ''-c'', ''copy'', ''-avoid_negative_ts'', ''make_zero'',
            ''-y'', ''/out/Panorama.mp4'']))"
    by code_simp
  from c obtain r where r: "merge_videos example_env = Some r"
    and call: "executor_call r = Some (?vf, ''/out/Panorama.mp4'')"
    by auto
  from no_merge_without_segments [of example_env] r call obtain m
    where m: "executor_result r = Some m"
      and lines: "command m \<noteq> None \<longrightarrow> playlist_lines m = map playlist_line ?vf"
    by blast
  from d r m have "command m \<noteq> None" by auto
  with lines have "length (playlist_lines m) = 3" by simp
  with r call m a h0 show ?thesis by blast
qed

end
